theory Spec2Isabelle
  imports Complex_Main
begin

section \<open>Python values used by the gateway\<close>

text \<open>
  The gateway is \<^verbatim>\<open>src/tono-bot-main/tono-bot/src/main.py\<close>. Python strings are
  modelled as \<^typ>\<open>string\<close>, one \<^typ>\<open>char\<close> per code point, which covers the code
  points U+0000 to U+00FF (Latin-1, enough for the Spanish texts of the bot). Exceptions
  are values of \<open>py_error\<close>; a function that can raise returns \<open>py_error + 'a\<close>.
\<close>

datatype py_error = KeyError | AttributeError | ValueError | UnboundLocalError | RequestError

definition bind :: "'e + 'a \<Rightarrow> ('a \<Rightarrow> 'e + 'b) \<Rightarrow> 'e + 'b" where
  "bind r f = (case r of Inl e \<Rightarrow> Inl e | Inr v \<Rightarrow> f v)"

section \<open>BoundedOrderedSet\<close>

text \<open>
  \<^verbatim>\<open>class BoundedOrderedSet\<close> (main.py 74-92). The \<^verbatim>\<open>OrderedDict\<close> \<^verbatim>\<open>_data\<close> maps
  every key to \<^verbatim>\<open>None\<close>, so it is the list of its keys in insertion order, oldest
  first. \<^verbatim>\<open>popitem(last=False)\<close> removes the first key and raises \<^verbatim>\<open>KeyError\<close> on an
  empty dictionary.
\<close>

record 'a BoundedOrderedSet =
  data :: "'a list"
  maxlen :: int

definition new_BoundedOrderedSet :: "int \<Rightarrow> 'a BoundedOrderedSet" where
  "new_BoundedOrderedSet n = \<lparr>data = [], maxlen = n\<rparr>"

definition contains :: "'a BoundedOrderedSet \<Rightarrow> 'a \<Rightarrow> bool" where
  "contains s key = (key \<in> set (data s))"

definition len :: "'a BoundedOrderedSet \<Rightarrow> int" where
  "len s = int (length (data s))"

definition popitem_first :: "'a list \<Rightarrow> py_error + 'a list" where
  "popitem_first d = (case d of [] \<Rightarrow> Inl KeyError | _ # rest \<Rightarrow> Inr rest)"

definition add :: "'a \<Rightarrow> 'a BoundedOrderedSet \<Rightarrow> py_error + 'a BoundedOrderedSet" where
  "add key s =
     (if key \<in> set (data s) then Inr s
      else bind (if int (length (data s)) \<ge> maxlen s then popitem_first (data s)
                 else Inr (data s))
             (\<lambda>d. Inr (s\<lparr>data := d @ [key]\<rparr>)))"

text \<open>A sequence of additions, stopping at the first exception.\<close>

fun add_all :: "'a list \<Rightarrow> 'a BoundedOrderedSet \<Rightarrow> py_error + 'a BoundedOrderedSet" where
  "add_all [] s = Inr s"
| "add_all (k # ks) s = bind (add k s) (add_all ks)"


section \<open>Strings\<close>

text \<open>
  The string methods the gateway calls, on code points up to U+00FF. \<^verbatim>\<open>str.isdigit\<close>
  holds for the ASCII digits and for the superscripts U+00B2, U+00B3 and U+00B9, which
  \<^verbatim>\<open>int()\<close> rejects with \<^verbatim>\<open>ValueError\<close>; \<^verbatim>\<open>str.isspace\<close> holds for U+0009 to U+000D,
  U+001C to U+0020, U+0085 and U+00A0; \<^verbatim>\<open>str.lower\<close> moves A-Z and U+00C0 to U+00DE
  (without the multiplication sign U+00D7) up by 32.
\<close>

definition ascii_digit :: "char \<Rightarrow> bool" where
  "ascii_digit c = (let n = (of_char c :: nat) in 48 \<le> n \<and> n \<le> 57)"

definition isdigit_char :: "char \<Rightarrow> bool" where
  "isdigit_char c = (let n = (of_char c :: nat) in ascii_digit c \<or> n = 178 \<or> n = 179 \<or> n = 185)"

definition isdigit :: "string \<Rightarrow> bool" where
  "isdigit s = (s \<noteq> [] \<and> list_all isdigit_char s)"

definition decimal :: "string \<Rightarrow> int" where
  "decimal s = foldl (\<lambda>a c. 10 * a + (int (of_char c) - 48)) 0 s"

definition py_int :: "string \<Rightarrow> py_error + int" where
  \<comment> \<open>\<^verbatim>\<open>int(s)\<close> for a string that passed \<^verbatim>\<open>s.isdigit()\<close>.\<close>
  "py_int s = (if list_all ascii_digit s then Inr (decimal s) else Inl ValueError)"

definition isspace_char :: "char \<Rightarrow> bool" where
  "isspace_char c = (let n = (of_char c :: nat) in
     (9 \<le> n \<and> n \<le> 13) \<or> (28 \<le> n \<and> n \<le> 32) \<or> n = 133 \<or> n = 160)"

definition strip :: "string \<Rightarrow> string" where
  "strip s = rev (dropWhile isspace_char (rev (dropWhile isspace_char s)))"

definition lower_char :: "char \<Rightarrow> char" where
  "lower_char c = (let n = (of_char c :: nat) in
     if (65 \<le> n \<and> n \<le> 90) \<or> (192 \<le> n \<and> n \<le> 222 \<and> n \<noteq> 215) then char_of (n + 32) else c)"

definition lower :: "string \<Rightarrow> string" where
  "lower s = map lower_char s"

definition startswith :: "string \<Rightarrow> string \<Rightarrow> bool" where
  "startswith s p = (take (length p) s = p)"

definition endswith :: "string \<Rightarrow> string \<Rightarrow> bool" where
  "endswith s p = (length p \<le> length s \<and> drop (length s - length p) s = p)"

fun str_in :: "string \<Rightarrow> string \<Rightarrow> bool" where
  \<comment> \<open>\<^verbatim>\<open>p in s\<close> on strings.\<close>
  "str_in p [] = (p = [])"
| "str_in p (c # cs) = (take (length p) (c # cs) = p \<or> str_in p cs)"

fun join :: "string \<Rightarrow> string list \<Rightarrow> string" where
  "join sep [] = []"
| "join sep [x] = x"
| "join sep (x # y # ys) = x @ sep @ join sep (y # ys)"

definition split_first :: "char \<Rightarrow> string \<Rightarrow> string" where
  \<comment> \<open>\<^verbatim>\<open>s.split(c)[0]\<close>\<close>
  "split_first c s = takeWhile (\<lambda>x. x \<noteq> c) s"

definition clean_phone_or_jid :: "string \<Rightarrow> string" where
  \<comment> \<open>\<^verbatim>\<open>_clean_phone_or_jid\<close> (main.py 176-179)\<close>
  "clean_phone_or_jid v = (if v = [] then [] else filter isdigit_char v)"

section \<open>Settings\<close>

text \<open>The fields of \<^verbatim>\<open>Settings\<close> (main.py 26-51) that the modelled functions read.\<close>

record Settings =
  OWNER_PHONE :: "string option"
  AUTO_REACTIVATE_MINUTES :: int
  HUMAN_DETECTION_WINDOW_SECONDS :: int
  MESSAGE_ACCUMULATION_SECONDS :: real

definition default_settings :: Settings where
  "default_settings = \<lparr>OWNER_PHONE = None, AUTO_REACTIVATE_MINUTES = 60,
     HUMAN_DETECTION_WINDOW_SECONDS = 3, MESSAGE_ACCUMULATION_SECONDS = 4\<rparr>"

section \<open>The provider's HTTP interface\<close>

text \<open>
  What the gateway reads of an \<^verbatim>\<open>httpx.Response\<close>: the status code, the
  \<^verbatim>\<open>retry-after\<close> header, and \<open>key_id\<close>, the value of
  \<^verbatim>\<open>response.json().get("key", {}).get("id")\<close> when that expression evaluates to a
  string and \<open>None\<close> when it raises or finds nothing (the gateway wraps it in
  \<^verbatim>\<open>try ... except Exception: pass\<close> and skips a falsy id).
  The shared \<^verbatim>\<open>httpx.AsyncClient\<close> is the script of the provider's coming replies (after
  the script the provider is unreachable: \<^verbatim>\<open>httpx.RequestError\<close>, the class of timeouts
  and connection errors) together with the log of the requests posted so far.
\<close>

record Response =
  status_code :: int
  retry_after :: "string option"
  key_id :: "string option"

datatype request =
    Send_text string string
  | Send_media string string string string string "string option"

record AsyncClient =
  replies :: "(py_error + Response) list"
  requests :: "request list"

definition post :: "AsyncClient \<Rightarrow> request \<Rightarrow> (py_error + Response) \<times> AsyncClient" where
  "post c r =
     (case replies c of
        [] \<Rightarrow> (Inl RequestError, c\<lparr>requests := requests c @ [r]\<rparr>)
      | x # xs \<Rightarrow> (x, c\<lparr>replies := xs, requests := requests c @ [r]\<rparr>))"

definition MAX_RETRIES :: nat where
  "MAX_RETRIES = 3"

definition backoff :: "Response \<Rightarrow> nat \<Rightarrow> py_error + int" where
  \<comment> \<open>main.py 255-256\<close>
  "backoff response attempt =
     (case retry_after response of
        Some h \<Rightarrow> if h \<noteq> [] \<and> isdigit h then py_int h else Inr (2 ^ (attempt + 1))
      | None \<Rightarrow> Inr (2 ^ (attempt + 1)))"

text \<open>
  \<^verbatim>\<open>_evo_post\<close> (main.py 249-261): the loop over \<^verbatim>\<open>range(_MAX_RETRIES)\<close>. The result is
  the response (or the exception that left the function), the client afterwards and the
  list of the \<^verbatim>\<open>asyncio.sleep\<close> durations, in seconds.
\<close>

fun evo_post_loop ::
  "nat list \<Rightarrow> AsyncClient \<Rightarrow> request \<Rightarrow> Response option
     \<Rightarrow> (py_error + Response) \<times> AsyncClient \<times> int list" where
  "evo_post_loop [] c r prev =
     (case prev of None \<Rightarrow> (Inl UnboundLocalError, c, []) | Some response \<Rightarrow> (Inr response, c, []))"
| "evo_post_loop (attempt # rest) c r prev =
     (case post c r of
        (Inl e, c') \<Rightarrow> (Inl e, c', [])
      | (Inr response, c') \<Rightarrow>
          if status_code response = 429 \<and> attempt < MAX_RETRIES - 1 then
            (case backoff response attempt of
               Inl e \<Rightarrow> (Inl e, c', [])
             | Inr b \<Rightarrow>
                 (case evo_post_loop rest c' r (Some response) of
                    (res, c'', slept) \<Rightarrow> (res, c'', b # slept)))
          else (Inr response, c', []))"

definition evo_post :: "AsyncClient \<Rightarrow> request \<Rightarrow> (py_error + Response) \<times> AsyncClient \<times> int list" where
  "evo_post c r = evo_post_loop [0..<MAX_RETRIES] c r None"



section \<open>GlobalState\<close>

text \<open>
  A value of \<^verbatim>\<open>silenced_users\<close> is either a float (\<^verbatim>\<open>time.time() + minutes * 60\<close>,
  main.py 876) or the constant \<^verbatim>\<open>True\<close> (main.py 403). In Python \<^verbatim>\<open>bool\<close> is a subclass
  of \<^verbatim>\<open>int\<close>: \<^verbatim>\<open>isinstance(True, (int, float))\<close> holds and \<^verbatim>\<open>True\<close> compares as the
  number 1.
\<close>

datatype silence_value = Timestamp real | PyTrue

definition is_int_or_float :: "silence_value \<Rightarrow> bool" where
  "is_int_or_float v = (case v of Timestamp t \<Rightarrow> True | PyTrue \<Rightarrow> True)"

definition as_number :: "silence_value \<Rightarrow> real" where
  "as_number v = (case v of Timestamp t \<Rightarrow> t | PyTrue \<Rightarrow> 1)"

text \<open>
  \<^verbatim>\<open>class GlobalState\<close> (main.py 95-116), without the inventory and the store, which
  belong to the reply pipeline. A value of \<^verbatim>\<open>pending_message_tasks\<close> is a handle of an
  \<^verbatim>\<open>asyncio.Task\<close>: its index in the event loop's list of tasks (section Event loop).
\<close>

record GlobalState =
  http_client :: "AsyncClient option"
  processed_message_ids :: "string BoundedOrderedSet"
  processed_lead_ids :: "string BoundedOrderedSet"
  silenced_users :: "string \<rightharpoonup> silence_value"
  bot_sent_message_ids :: "string BoundedOrderedSet"
  bot_sent_texts :: "string \<rightharpoonup> string list"
  last_bot_message_time :: "string \<rightharpoonup> real"
  pending_messages :: "string \<rightharpoonup> string list"
  pending_message_tasks :: "string \<rightharpoonup> nat"

definition new_GlobalState :: GlobalState where
  "new_GlobalState =
     \<lparr>http_client = None,
      processed_message_ids = new_BoundedOrderedSet 4000,
      processed_lead_ids = new_BoundedOrderedSet 8000,
      silenced_users = Map.empty,
      bot_sent_message_ids = new_BoundedOrderedSet 2000,
      bot_sent_texts = Map.empty,
      last_bot_message_time = Map.empty,
      pending_messages = Map.empty,
      pending_message_tasks = Map.empty\<rparr>"

section \<open>Sending, with echo tracking\<close>

definition track_msg_id :: "GlobalState \<Rightarrow> Response \<Rightarrow> GlobalState" where
  \<comment> \<open>the \<^verbatim>\<open>try\<close> block of main.py 688-694, 708-715, 755-761 and 783-789\<close>
  "track_msg_id st response =
     (case key_id response of
        None \<Rightarrow> st
      | Some msg_id \<Rightarrow>
          if msg_id \<noteq> [] then
            (case add msg_id (bot_sent_message_ids st) of
               Inl e \<Rightarrow> st
             | Inr ids \<Rightarrow> st\<lparr>bot_sent_message_ids := ids\<rparr>)
          else st)"

definition deque_append :: "string list \<Rightarrow> string \<Rightarrow> string list" where
  \<comment> \<open>\<^verbatim>\<open>append\<close> on a \<^verbatim>\<open>deque(maxlen=10)\<close>\<close>
  "deque_append d x = (if length d \<ge> 10 then tl d @ [x] else d @ [x])"

text \<open>
  The loop over \<^verbatim>\<open>enumerate(media_urls)\<close> of main.py 665-694. An exception of
  \<^verbatim>\<open>_evo_post\<close> leaves the loop: it is caught at main.py 723-726.
\<close>

fun send_media_loop ::
  "GlobalState \<Rightarrow> AsyncClient \<Rightarrow> string \<Rightarrow> string \<Rightarrow> int \<Rightarrow> int \<Rightarrow> string list
     \<Rightarrow> GlobalState \<times> AsyncClient" where
  "send_media_loop st c clean_number txt total_fotos i [] = (st, c)"
| "send_media_loop st c clean_number txt total_fotos i (media_url # rest) =
     (let caption_part = (if i = total_fotos - 1 then txt else [])
      in case evo_post c (Send_media clean_number ''image'' ''image/jpeg'' caption_part media_url None) of
           (Inl e, c', slept) \<Rightarrow> (st, c')
         | (Inr response, c', slept) \<Rightarrow>
             if status_code response \<ge> 400
             then send_media_loop st c' clean_number txt total_fotos (i + 1) rest
             else send_media_loop (track_msg_id st response) c' clean_number txt total_fotos (i + 1) rest)"

definition send_evolution_message ::
  "GlobalState \<Rightarrow> real \<Rightarrow> string \<Rightarrow> string \<Rightarrow> string list \<Rightarrow> GlobalState" where
  \<comment> \<open>main.py 645-726; \<open>now\<close> is the value of \<^verbatim>\<open>time.time()\<close>\<close>
  "send_evolution_message st now number_or_jid text0 media_urls =
     (let txt = strip text0 in
      if txt = [] \<and> media_urls = [] then st
      else let clean_number = clean_phone_or_jid number_or_jid in
        if clean_number = [] then st
        else case http_client st of
          None \<Rightarrow> st
        | Some client \<Rightarrow>
            if media_urls \<noteq> [] then
              (case send_media_loop st client clean_number txt (int (length media_urls)) 0 media_urls of
                 (st', c') \<Rightarrow> st'\<lparr>http_client := Some c'\<rparr>)
            else
              (case evo_post client (Send_text clean_number txt) of
                 (Inl e, c', slept) \<Rightarrow> st\<lparr>http_client := Some c'\<rparr>
               | (Inr response, c', slept) \<Rightarrow>
                   if status_code response \<ge> 400 then st\<lparr>http_client := Some c'\<rparr>
                   else
                     let jid = clean_number @ ''@s.whatsapp.net'';
                         st1 = track_msg_id (st\<lparr>http_client := Some c'\<rparr>) response;
                         recent = (case bot_sent_texts st1 jid of None \<Rightarrow> [] | Some d \<Rightarrow> d)
                     in st1\<lparr>bot_sent_texts := (bot_sent_texts st1)(jid \<mapsto> deque_append recent txt),
                            last_bot_message_time := (last_bot_message_time st1)(jid \<mapsto> now)\<rparr>))"

definition send_evolution_document ::
  "GlobalState \<Rightarrow> string \<Rightarrow> string \<Rightarrow> string \<Rightarrow> string \<Rightarrow> GlobalState" where
  \<comment> \<open>main.py 729-794\<close>
  "send_evolution_document st number_or_jid txt pdf_url filename =
     (let clean_number = clean_phone_or_jid number_or_jid in
      if clean_number = [] then st
      else case http_client st of
        None \<Rightarrow> st
      | Some client \<Rightarrow>
          (case (if txt \<noteq> [] then
                   (case evo_post client (Send_text clean_number txt) of
                      (Inl e, c', slept) \<Rightarrow> Inl (st\<lparr>http_client := Some c'\<rparr>)
                    | (Inr response, c', slept) \<Rightarrow>
                        if status_code response \<ge> 400 then Inr (st, c')
                        else Inr (track_msg_id st response, c'))
                 else Inr (st, client)) of
             Inl aborted \<Rightarrow> aborted
           | Inr (st1, c1) \<Rightarrow>
               (case evo_post c1 (Send_media clean_number ''document'' ''application/pdf'' [] pdf_url
                                    (Some filename)) of
                  (Inl e, c2, slept) \<Rightarrow> st1\<lparr>http_client := Some c2\<rparr>
                | (Inr response, c2, slept) \<Rightarrow>
                    if status_code response \<ge> 400 then st1\<lparr>http_client := Some c2\<rparr>
                    else (track_msg_id st1 response)\<lparr>http_client := Some c2\<rparr>)))"

section \<open>Recognising the bot's own messages\<close>

definition is_bot_message ::
  "Settings \<Rightarrow> GlobalState \<Rightarrow> real \<Rightarrow> string \<Rightarrow> string \<Rightarrow> string \<Rightarrow> bool" where
  \<comment> \<open>\<^verbatim>\<open>_is_bot_message\<close> (main.py 330-355); \<open>now\<close> is the value of \<^verbatim>\<open>time.time()\<close>\<close>
  "is_bot_message cfg st now remote_jid msg_id msg_text =
     (if msg_id \<noteq> [] \<and> contains (bot_sent_message_ids st) msg_id then True
      else if (case bot_sent_texts st remote_jid of
                 None \<Rightarrow> False
               | Some recent_texts \<Rightarrow> msg_text \<in> set recent_texts) then True
      else
        let last_bot_time = (case last_bot_message_time st remote_jid of None \<Rightarrow> 0 | Some t \<Rightarrow> t);
            time_diff = now - last_bot_time
        in if time_diff < real_of_int (HUMAN_DETECTION_WINDOW_SECONDS cfg) then True else False)"

definition is_automated_greeting :: "string \<Rightarrow> bool" where
  \<comment> \<open>\<^verbatim>\<open>_is_automated_greeting\<close> (main.py 297-327)\<close>
  "is_automated_greeting txt =
     (if txt = [] then False
      else let text_lower = lower txt in
        (str_in ''bienvenido'' text_lower \<and> str_in ''wa.me'' text_lower)
        \<or> (str_in (''cat'' @ [CHR 0xE1] @ ''logo'') text_lower \<and> str_in ''wa.me'' text_lower)
        \<or> (str_in ''catalogo'' text_lower \<and> str_in ''wa.me'' text_lower)
        \<or> str_in ''wa.me/c/'' text_lower
        \<or> str_in ''no estamos disponibles'' text_lower
        \<or> str_in ''fuera de horario'' text_lower
        \<or> (str_in ''te contactaremos'' text_lower \<and> str_in ''pronto'' text_lower)
        \<or> (startswith text_lower ''hola'' \<and> str_in ''bienvenido'' text_lower \<and> length txt < 200))"


section \<open>Processing an accumulated turn\<close>

text \<open>
  \<^verbatim>\<open>_process_accumulated_messages\<close> (main.py 367-528) up to the point where the reply
  pipeline starts (main.py 416: inventory, store, reply generation, dispatch, funnel).
  The pipeline itself is the work of external collaborators; the model ends a turn that
  reaches it with the outcome \<open>Pipeline\<close>. The other outcomes are the early returns.
\<close>

datatype turn_outcome = Silenced | Command_silencio | Command_activar | Pipeline

definition msg_bot_desactivado :: string where
  "msg_bot_desactivado =
     ''Bot desactivado. Un asesor humano te atender'' @ [CHR 0xE1] @ '' en breve.''"

definition msg_bot_activado :: string where
  "msg_bot_activado =
     ''Bot activado de nuevo. '' @ [CHR 0xBF] @ ''En qu'' @ [CHR 0xE9] @ '' te ayudo?''"

definition msg_handoff :: "string \<Rightarrow> string" where
  "msg_handoff clean_client =
     ''*HANDOFF ACTIVADO*'' @ [CHR 0x0A, CHR 0x0A] @ ''El chat con wa.me/'' @ clean_client
       @ '' ha sido pausado.''"

definition check_silence :: "real \<Rightarrow> GlobalState \<Rightarrow> string \<Rightarrow> GlobalState option" where
  \<comment> \<open>main.py 386-399; \<open>None\<close> is the \<^verbatim>\<open>return\<close> of a silenced conversation\<close>
  "check_silence now st remote_jid =
     (case silenced_users st remote_jid of
        None \<Rightarrow> Some st
      | Some silence_value \<Rightarrow>
          if is_int_or_float silence_value then
            (if now < as_number silence_value then None
             else Some (st\<lparr>silenced_users := (silenced_users st)(remote_jid := None)\<rparr>))
          else if silence_value = PyTrue then None
          else Some st)"

definition process_accumulated_messages ::
  "Settings \<Rightarrow> real \<Rightarrow> GlobalState \<Rightarrow> string \<Rightarrow> GlobalState \<times> (string \<times> turn_outcome) option" where
  "process_accumulated_messages cfg now st remote_jid =
     (let messages = (case pending_messages st remote_jid of None \<Rightarrow> [] | Some ms \<Rightarrow> ms);
          st1 = st\<lparr>pending_messages := (pending_messages st)(remote_jid := None),
                    pending_message_tasks := (pending_message_tasks st)(remote_jid := None)\<rparr>
      in if messages = [] then (st1, None)
      else
        let combined_message = (if length messages = 1 then hd messages else join '' | '' messages)
        in case check_silence now st1 remote_jid of
          None \<Rightarrow> (st1, Some (combined_message, Silenced))
        | Some st2 \<Rightarrow>
            if lower combined_message = ''/silencio'' then
              let st3 = st2\<lparr>silenced_users := (silenced_users st2)(remote_jid \<mapsto> PyTrue)\<rparr>;
                  st4 = send_evolution_message st3 now remote_jid msg_bot_desactivado [];
                  st5 = (case OWNER_PHONE cfg of
                           None \<Rightarrow> st4
                         | Some owner \<Rightarrow>
                             if owner \<noteq> [] then
                               send_evolution_message st4 now owner
                                 (msg_handoff (split_first CHR ''@'' remote_jid)) []
                             else st4)
              in (st5, Some (combined_message, Command_silencio))
            else if lower combined_message = ''/activar'' then
              let st3 = st2\<lparr>silenced_users := (silenced_users st2)(remote_jid := None)\<rparr>;
                  st4 = send_evolution_message st3 now remote_jid msg_bot_activado []
              in (st4, Some (combined_message, Command_activar))
            else (st2, Some (combined_message, Pipeline)))"

section \<open>Webhook events\<close>

text \<open>
  A parsed JSON value (numbers restricted to integers), with the Python operations the
  gateway applies to it: truthiness (for \<^verbatim>\<open>x or default\<close>), \<^verbatim>\<open>x.get(k, default)\<close>, which
  raises \<^verbatim>\<open>AttributeError\<close> unless \<open>x\<close> is a dictionary, and \<^verbatim>\<open>x.strip()\<close>, which raises
  \<^verbatim>\<open>AttributeError\<close> unless \<open>x\<close> is a string.
\<close>

datatype json = JNull | JBool bool | JNum int | JStr string | JArr "json list"
  | JObj "(string \<times> json) list"

fun truthy :: "json \<Rightarrow> bool" where
  "truthy JNull = False"
| "truthy (JBool b) = b"
| "truthy (JNum n) = (n \<noteq> 0)"
| "truthy (JStr s) = (s \<noteq> [])"
| "truthy (JArr xs) = (xs \<noteq> [])"
| "truthy (JObj kvs) = (kvs \<noteq> [])"

definition py_or :: "json \<Rightarrow> json \<Rightarrow> json" where
  "py_or a b = (if truthy a then a else b)"

fun dict_get :: "json \<Rightarrow> string \<Rightarrow> json \<Rightarrow> py_error + json" where
  "dict_get (JObj kvs) k d = Inr (case map_of kvs k of None \<Rightarrow> d | Some v \<Rightarrow> v)"
| "dict_get other k d = Inl AttributeError"

fun has_key :: "json \<Rightarrow> string \<Rightarrow> bool" where
  "has_key (JObj kvs) k = (map_of kvs k \<noteq> None)"
| "has_key other k = False"

fun is_dict :: "json \<Rightarrow> bool" where
  "is_dict (JObj kvs) = True"
| "is_dict other = False"

fun str_strip :: "json \<Rightarrow> py_error + string" where
  "str_strip (JStr s) = Inr (strip s)"
| "str_strip other = Inl AttributeError"

definition msg_foto :: string where
  "msg_foto = ''(Envi'' @ [CHR 0xF3] @ '' una foto)''"

definition extract_user_message :: "json \<Rightarrow> py_error + json \<times> bool" where
  \<comment> \<open>\<^verbatim>\<open>_extract_user_message\<close> (main.py 182-208)\<close>
  "extract_user_message msg_obj =
     (if \<not> is_dict msg_obj then Inr (JStr [], False)
      else if has_key msg_obj ''conversation'' then
        bind (dict_get msg_obj ''conversation'' JNull) (\<lambda>v. Inr (py_or v (JStr []), False))
      else if has_key msg_obj ''extendedTextMessage'' then
        bind (dict_get msg_obj ''extendedTextMessage'' JNull) (\<lambda>e.
        bind (dict_get (py_or e (JObj [])) ''text'' JNull) (\<lambda>v. Inr (py_or v (JStr []), False)))
      else if has_key msg_obj ''imageMessage'' then
        bind (dict_get msg_obj ''imageMessage'' JNull) (\<lambda>e.
        bind (dict_get (py_or e (JObj [])) ''caption'' JNull) (\<lambda>v. Inr (py_or v (JStr msg_foto), False)))
      else if has_key msg_obj ''audioMessage'' \<or> has_key msg_obj ''pttMessage'' then
        Inr (JStr [], True)
      else Inr (JStr [], False))"


section \<open>Event loop\<close>

text \<open>
  The part of \<^verbatim>\<open>asyncio\<close> that the debounce relies on. A task runs
  \<^verbatim>\<open>_schedule_accumulated_processing\<close> (main.py 531-543) for one conversation:
  \<^item> \<open>Sleeping\<close>: suspended in \<^verbatim>\<open>asyncio.sleep\<close>, to wake at \<open>wake_at\<close>;
  \<^item> \<open>Cancel_requested\<close>: \<^verbatim>\<open>cancel()\<close> was called during the sleep; when the loop resumes
    the task, \<^verbatim>\<open>CancelledError\<close> is raised at the \<^verbatim>\<open>await\<close> and caught at main.py 539-541;
  \<^item> \<open>Running\<close>: inside the reply pipeline of \<^verbatim>\<open>_process_accumulated_messages\<close>;
  \<^item> \<open>Interrupted\<close>: \<^verbatim>\<open>cancel()\<close> was called on a running task, whose turn is cut short;
  \<^item> \<open>Finished\<close>: the coroutine has returned.
  The world is the \<^verbatim>\<open>GlobalState\<close>, the tasks created so far (a handle is an index) and
  the log of the turns formed at main.py 379-384, with the outcome of each.
\<close>

datatype task_status = Sleeping | Cancel_requested | Running | Interrupted | Finished

record Task =
  task_jid :: string
  wake_at :: real
  status :: task_status

record World =
  bot :: GlobalState
  tasks :: "Task list"
  turns :: "(string \<times> string \<times> turn_outcome) list"

definition task_done :: "Task \<Rightarrow> bool" where
  \<comment> \<open>\<^verbatim>\<open>Task.done()\<close>\<close>
  "task_done t = (status t = Finished)"

definition cancel :: "Task \<Rightarrow> Task" where
  "cancel t =
     (case status t of
        Sleeping \<Rightarrow> t\<lparr>status := Cancel_requested\<rparr>
      | Running \<Rightarrow> t\<lparr>status := Interrupted\<rparr>
      | other \<Rightarrow> t)"

definition accumulate :: "Settings \<Rightarrow> real \<Rightarrow> World \<Rightarrow> string \<Rightarrow> string \<Rightarrow> World" where
  \<comment> \<open>main.py 905-921, at time \<open>now\<close>; a handle always refers to a created task\<close>
  "accumulate cfg now w remote_jid user_message =
     (let b = bot w;
          pending = (case pending_messages b remote_jid of None \<Rightarrow> [] | Some ms \<Rightarrow> ms) @ [user_message];
          ts = (case pending_message_tasks b remote_jid of
                  None \<Rightarrow> tasks w
                | Some old_task \<Rightarrow>
                    if old_task < length (tasks w) \<and> \<not> task_done (tasks w ! old_task)
                    then (tasks w)[old_task := cancel (tasks w ! old_task)]
                    else tasks w);
          task = \<lparr>task_jid = remote_jid, wake_at = now + MESSAGE_ACCUMULATION_SECONDS cfg,
                  status = Sleeping\<rparr>
      in w\<lparr>bot := b\<lparr>pending_messages := (pending_messages b)(remote_jid \<mapsto> pending),
                      pending_message_tasks := (pending_message_tasks b)(remote_jid \<mapsto> length ts)\<rparr>,
            tasks := ts @ [task]\<rparr>)"

definition resume :: "Settings \<Rightarrow> real \<Rightarrow> nat \<Rightarrow> World \<Rightarrow> World" where
  \<comment> \<open>the loop gives task \<open>h\<close> its next step, at time \<open>now\<close>\<close>
  "resume cfg now h w =
     (if h \<ge> length (tasks w) then w
      else let t = tasks w ! h in
        case status t of
          Sleeping \<Rightarrow>
            (case process_accumulated_messages cfg now (bot w) (task_jid t) of
               (b, None) \<Rightarrow> w\<lparr>bot := b, tasks := (tasks w)[h := t\<lparr>status := Finished\<rparr>]\<rparr>
             | (b, Some (combined_message, outcome)) \<Rightarrow>
                 w\<lparr>bot := b,
                   tasks := (tasks w)[h := t\<lparr>status := (if outcome = Pipeline then Running else Finished)\<rparr>],
                   turns := turns w @ [(task_jid t, combined_message, outcome)]\<rparr>)
        | Cancel_requested \<Rightarrow> w\<lparr>tasks := (tasks w)[h := t\<lparr>status := Finished\<rparr>]\<rparr>
        | Running \<Rightarrow> w\<lparr>tasks := (tasks w)[h := t\<lparr>status := Finished\<rparr>]\<rparr>
        | Interrupted \<Rightarrow> w\<lparr>tasks := (tasks w)[h := t\<lparr>status := Finished\<rparr>]\<rparr>
        | Finished \<Rightarrow> w)"

definition due :: "real \<Rightarrow> Task list \<Rightarrow> nat \<Rightarrow> bool" where
  "due t ts h = (h < length ts \<and> (status (ts ! h) = Sleeping \<or> status (ts ! h) = Cancel_requested)
                   \<and> wake_at (ts ! h) \<le> t)"

definition run_until :: "Settings \<Rightarrow> real \<Rightarrow> World \<Rightarrow> World" where
  \<comment> \<open>the loop collects the timers that are due at time \<open>t\<close> and resumes each at its wake-up time\<close>
  "run_until cfg t w =
     fold (\<lambda>h v. resume cfg (wake_at (tasks w ! h)) h v)
          (filter (due t (tasks w)) [0..<length (tasks w)]) w"

fun deliver :: "Settings \<Rightarrow> World \<Rightarrow> (real \<times> string \<times> string) list \<Rightarrow> World" where
  \<comment> \<open>texts reaching main.py 905, each with its arrival time and its conversation; the
      timers that are due run before the text is taken\<close>
  "deliver cfg w [] = w"
| "deliver cfg w ((t, remote_jid, user_message) # rest) =
     deliver cfg (accumulate cfg t (run_until cfg t w) remote_jid user_message) rest"

definition from_jid :: "string \<Rightarrow> (real \<times> string \<times> string) list \<Rightarrow> (real \<times> string \<times> string) list" where
  \<comment> \<open>the arrivals of one conversation\<close>
  "from_jid jid events = filter (\<lambda>e. fst (snd e) = jid) events"

definition of_jid ::
  "string \<Rightarrow> (string \<times> string \<times> turn_outcome) list \<Rightarrow> (string \<times> string \<times> turn_outcome) list" where
  \<comment> \<open>the turns of one conversation\<close>
  "of_jid jid lg = filter (\<lambda>x. fst x = jid) lg"

fun within_window :: "real \<Rightarrow> real list \<Rightarrow> bool" where
  \<comment> \<open>arrival times in order, each less than \<open>d\<close> after the one before\<close>
  "within_window d [] = True"
| "within_window d [t] = True"
| "within_window d (t1 # t2 # ts) = (t1 \<le> t2 \<and> t2 - t1 < d \<and> within_window d (t2 # ts))"

section \<open>The central processor\<close>

definition msg_audio_problem :: string where
  "msg_audio_problem =
     ''Tuve un problema escuchando el audio. '' @ [CHR 0xBF]
       @ ''Me lo puedes escribir o mandar de nuevo?''"

definition handle_audio_transcription :: "string \<Rightarrow> string \<Rightarrow> string \<Rightarrow> string" where
  \<comment> \<open>\<^verbatim>\<open>_handle_audio_transcription\<close> (main.py 547-641): the download and the transcription
      are external; \<open>transcript\<close> is what they yield (empty on any failure)\<close>
  "handle_audio_transcription transcript msg_id remote_jid =
     (if msg_id = [] \<or> remote_jid = [] then [] else transcript)"

definition raising :: "World \<Rightarrow> py_error + 'a \<Rightarrow> ('a \<Rightarrow> World \<times> py_error option)
    \<Rightarrow> World \<times> py_error option" where
  \<comment> \<open>an exception leaves the function with the state as it is then\<close>
  "raising w r f = (case r of Inl e \<Rightarrow> (w, Some e) | Inr v \<Rightarrow> f v)"

definition handoff_detection ::
  "Settings \<Rightarrow> real \<Rightarrow> World \<Rightarrow> json \<Rightarrow> string \<Rightarrow> string \<Rightarrow> World \<times> py_error option" where
  \<comment> \<open>main.py 858-877\<close>
  "handoff_detection cfg now w event_data remote_jid msg_id =
     raising w (dict_get event_data ''message'' (JObj [])) (\<lambda>m.
     raising w (extract_user_message (py_or m (JObj []))) (\<lambda>(t, is_audio).
     raising w (str_strip t) (\<lambda>msg_text.
       if is_bot_message cfg (bot w) now remote_jid msg_id msg_text then (w, None)
       else if is_automated_greeting msg_text then (w, None)
       else (w\<lparr>bot := (bot w)\<lparr>silenced_users := (silenced_users (bot w))
                 (remote_jid \<mapsto> Timestamp (now + real_of_int (AUTO_REACTIVATE_MINUTES cfg * 60)))\<rparr>\<rparr>,
             None))))"

definition inbound_message ::
  "Settings \<Rightarrow> real \<Rightarrow> string \<Rightarrow> World \<Rightarrow> json \<Rightarrow> string \<Rightarrow> string \<Rightarrow> World \<times> py_error option" where
  \<comment> \<open>main.py 879-921\<close>
  "inbound_message cfg now transcript w event_data remote_jid msg_id =
     raising w (dict_get event_data ''message'' (JObj [])) (\<lambda>m.
     raising w (extract_user_message (py_or m (JObj []))) (\<lambda>(t, is_audio).
     raising w (str_strip t) (\<lambda>user_message.
       if user_message = [] \<and> is_audio then
         (let transcribed = handle_audio_transcription transcript msg_id remote_jid in
          if transcribed = [] then
            (w\<lparr>bot := send_evolution_message (bot w) now remote_jid msg_audio_problem []\<rparr>, None)
          else (accumulate cfg now w remote_jid transcribed, None))
       else if user_message = [] then (w, None)
       else (accumulate cfg now w remote_jid user_message, None))))"

definition event_key_fields :: "json \<Rightarrow> py_error + string \<times> json \<times> string" where
  \<comment> \<open>main.py 833-836: \<^verbatim>\<open>remote_jid\<close>, \<^verbatim>\<open>from_me\<close> and \<^verbatim>\<open>msg_id\<close>\<close>
  "event_key_fields event_data =
     bind (dict_get event_data ''key'' (JObj [])) (\<lambda>k. let key = py_or k (JObj []) in
     bind (dict_get key ''remoteJid'' (JStr [])) (\<lambda>r.
     bind (str_strip (py_or r (JStr []))) (\<lambda>remote_jid.
     bind (dict_get key ''fromMe'' (JBool False)) (\<lambda>from_me.
     bind (dict_get key ''id'' (JStr [])) (\<lambda>i.
     bind (str_strip (py_or i (JStr []))) (\<lambda>msg_id.
       Inr (remote_jid, from_me, msg_id)))))))"

definition process_single_event ::
  "Settings \<Rightarrow> real \<Rightarrow> string \<Rightarrow> World \<Rightarrow> json \<Rightarrow> World \<times> py_error option" where
  \<comment> \<open>main.py 832-921\<close>
  "process_single_event cfg now transcript w event_data =
     raising w (event_key_fields event_data) (\<lambda>(remote_jid, from_me, msg_id).
       if remote_jid = [] then (w, None)
       else if endswith remote_jid ''@g.us'' \<or> str_in ''broadcast'' remote_jid then (w, None)
       else if msg_id \<noteq> [] \<and> contains (processed_message_ids (bot w)) msg_id then (w, None)
       else
         raising w (if msg_id \<noteq> [] then add msg_id (processed_message_ids (bot w))
                    else Inr (processed_message_ids (bot w))) (\<lambda>ids.
           let w1 = w\<lparr>bot := (bot w)\<lparr>processed_message_ids := ids\<rparr>\<rparr> in
           if truthy from_me then handoff_detection cfg now w1 event_data remote_jid msg_id
           else inbound_message cfg now transcript w1 event_data remote_jid msg_id))"

section \<open>The webhook endpoint\<close>

text \<open>
  \<^verbatim>\<open>_background_process_events\<close> (main.py 944-950) and \<^verbatim>\<open>evolution_webhook\<close>
  (main.py 953-983). Each event comes with the clock reading and the transcription result
  of its processing. The handler gets the parsed body (or the exception of
  \<^verbatim>\<open>request.json()\<close>) and \<^verbatim>\<open>request.app.state.bot\<close> (absent before the lifespan has set it,
  an \<^verbatim>\<open>AttributeError\<close>); \<^verbatim>\<open>_safe_log_payload\<close> only writes to the log, inside its own
  \<^verbatim>\<open>try\<close>. The handler returns the acknowledgment and the events handed to
  \<^verbatim>\<open>asyncio.create_task\<close>, or the exception that leaves it. The framework answers a returned
  dictionary with status 200 and an exception with status 500.
\<close>

definition background_process_events ::
  "Settings \<Rightarrow> World \<Rightarrow> (real \<times> string \<times> json) list \<Rightarrow> World \<times> py_error option" where
  "background_process_events cfg w events =
     (fold (\<lambda>(now, transcript, event) v. fst (process_single_event cfg now transcript v event)) events w,
      None)"

datatype ack = Ignored string | Accepted | Error_but_acked

definition webhook_body :: "bool \<Rightarrow> json \<Rightarrow> py_error + ack \<times> json list option" where
  \<comment> \<open>the second \<^verbatim>\<open>try\<close> block, main.py 969-979\<close>
  "webhook_body has_bot body =
     bind (dict_get body ''data'' JNull) (\<lambda>data_payload.
       if \<not> truthy data_payload then Inr (Ignored ''no_data'', None)
       else
         let events = (case data_payload of JArr xs \<Rightarrow> xs | other \<Rightarrow> [data_payload]) in
         if has_bot then Inr (Accepted, Some events) else Inl AttributeError)"

definition evolution_webhook :: "bool \<Rightarrow> py_error + json \<Rightarrow> py_error + ack \<times> json list option" where
  "evolution_webhook has_bot parsed =
     (case parsed of
        Inl e \<Rightarrow> Inr (Ignored ''invalid_json'', None)
      | Inr body \<Rightarrow>
          (case webhook_body has_bot body of
             Inl e \<Rightarrow> Inr (Error_but_acked, None)
           | Inr r \<Rightarrow> Inr r))"

definition http_status :: "py_error + ack \<times> json list option \<Rightarrow> int" where
  "http_status r = (case r of Inl e \<Rightarrow> 500 | Inr a \<Rightarrow> 200)"

section \<open>Schedules\<close>

text \<open>
  A step of the system as the debounce sees it: a text of a conversation reaches
  main.py 905 at some time, or the event loop resumes a task at some time. The steps
  come in any order. \<open>timers_consistent\<close> is the invariant the code keeps: no task is ever
  interrupted inside a turn, every handle in \<^verbatim>\<open>pending_message_tasks\<close> is the sleeping timer
  of its conversation, and every sleeping timer is the one registered for its conversation
  (so a conversation has at most one live timer).
\<close>

datatype step = Message real string string | Wake real nat

fun exec :: "Settings \<Rightarrow> step \<Rightarrow> World \<Rightarrow> World" where
  "exec cfg (Message now remote_jid user_message) w = accumulate cfg now w remote_jid user_message"
| "exec cfg (Wake now h) w = resume cfg now h w"

definition timers_consistent :: "World \<Rightarrow> bool" where
  "timers_consistent w =
     ((\<forall>h < length (tasks w). status (tasks w ! h) \<noteq> Interrupted)
      \<and> (\<forall>j h. pending_message_tasks (bot w) j = Some h \<longrightarrow>
            h < length (tasks w) \<and> status (tasks w ! h) = Sleeping \<and> task_jid (tasks w ! h) = j)
      \<and> (\<forall>h < length (tasks w). status (tasks w ! h) = Sleeping \<longrightarrow>
            pending_message_tasks (bot w) (task_jid (tasks w ! h)) = Some h))"

text \<open>
  Two shapes of the world as one conversation sees it: \<open>bursting\<close>, where task \<open>n\<close> is
  the conversation's registered timer, to wake at \<open>wk\<close>, and the texts so far are pending;
  and \<open>quiet\<close>, where the conversation has nothing pending and no timer. Both record the
  conversation's turns so far.
\<close>

definition bursting ::
  "World \<Rightarrow> string \<Rightarrow> nat \<Rightarrow> string list \<Rightarrow> real
     \<Rightarrow> (string \<times> string \<times> turn_outcome) list \<Rightarrow> silence_value option \<Rightarrow> bool" where
  "bursting w jid n texts wk lg sil =
     (timers_consistent w \<and> texts \<noteq> [] \<and> n < length (tasks w)
      \<and> wake_at (tasks w ! n) = wk
      \<and> pending_messages (bot w) jid = Some texts
      \<and> pending_message_tasks (bot w) jid = Some n
      \<and> of_jid jid (turns w) = lg \<and> silenced_users (bot w) jid = sil)"

definition quiet ::
  "World \<Rightarrow> string \<Rightarrow> (string \<times> string \<times> turn_outcome) list \<Rightarrow> bool" where
  "quiet w jid lg =
     (timers_consistent w \<and> pending_messages (bot w) jid = None
      \<and> pending_message_tasks (bot w) jid = None \<and> of_jid jid (turns w) = lg)"

section \<open>Sample inputs\<close>

definition accepted :: "string \<Rightarrow> py_error + Response" where
  \<comment> \<open>the provider accepts a request and assigns the message id \<open>i\<close>\<close>
  "accepted i = Inr \<lparr>status_code = 200, retry_after = None, key_id = Some i\<rparr>"

definition started_bot :: "(py_error + Response) list \<Rightarrow> GlobalState" where
  \<comment> \<open>the state after the lifespan has started, facing a provider with the given script\<close>
  "started_bot script = new_GlobalState\<lparr>http_client := Some \<lparr>replies = script, requests = []\<rparr>\<rparr>"

definition started_world :: "(py_error + Response) list \<Rightarrow> World" where
  "started_world script = \<lparr>bot = started_bot script, tasks = [], turns = []\<rparr>"

definition text_event :: "string \<Rightarrow> bool \<Rightarrow> string option \<Rightarrow> string \<Rightarrow> json" where
  \<comment> \<open>a webhook event carrying a plain text message\<close>
  "text_event remote_jid from_me msg_id txt =
     JObj [(''key'', JObj ([(''remoteJid'', JStr remote_jid), (''fromMe'', JBool from_me)]
                            @ (case msg_id of None \<Rightarrow> [] | Some i \<Rightarrow> [(''id'', JStr i)]))),
           (''message'', JObj [(''conversation'', JStr txt)])]"

definition two_messages_world :: World where
  "two_messages_world =
     fold (exec default_settings)
       [Message 1000 ''A'' ''hola'', Message 1001 ''A'' ''cuanto cuesta''] (started_world [])"

section \<open>The bounded set keeps the most recent keys\<close>

lemma bind_Inr [simp]: "bind (Inr v) f = f v"
  by (simp add: bind_def)

lemma bind_Inl [simp]: "bind (Inl e) f = Inl e"
  by (simp add: bind_def)

lemma add_member: "key \<in> set (data s) \<Longrightarrow> add key s = Inr s"
  by (simp add: add_def)

lemma add_fresh:
  assumes "key \<notin> set (data s)" and "0 < maxlen s" and "int (length (data s)) \<le> maxlen s"
  shows "add key s = Inr (s\<lparr>data := drop (length (data s) + 1 - nat (maxlen s)) (data s @ [key])\<rparr>)"
proof (cases "int (length (data s)) \<ge> maxlen s")
  case True
  with assms have len: "length (data s) = nat (maxlen s)" and ne: "data s \<noteq> []"
    by auto
  then obtain x rest where d: "data s = x # rest"
    by (cases "data s") auto
  from True assms(1) d len show ?thesis
    by (simp add: add_def popitem_first_def)
next
  case False
  then have "length (data s) + 1 - nat (maxlen s) = 0"
    by linarith
  with False assms(1) show ?thesis
    by (simp add: add_def)
qed

lemma drop_within_append: "j \<le> length xs \<Longrightarrow> drop j xs @ ks = drop j (xs @ ks)"
  by simp

lemma add_all_data:
  assumes "distinct (data s @ ks)" and "0 < maxlen s" and "int (length (data s)) \<le> maxlen s"
  shows "add_all ks s =
           Inr (s\<lparr>data := drop (length (data s) + length ks - nat (maxlen s)) (data s @ ks)\<rparr>)"
  using assms
proof (induction ks arbitrary: s)
  case Nil
  then have "length (data s) - nat (maxlen s) = 0"
    by linarith
  then show ?case by simp
next
  case (Cons k ks)
  let ?m = "nat (maxlen s)"
  let ?d = "drop (length (data s) + 1 - ?m) (data s @ [k])"
  let ?s = "s\<lparr>data := ?d\<rparr>"
  from Cons.prems have fresh: "k \<notin> set (data s)"
    by auto
  have step: "add k s = Inr ?s"
    using add_fresh [OF fresh Cons.prems(2) Cons.prems(3)] .
  have dist: "distinct (data ?s @ ks)"
  proof -
    from Cons.prems(1) have "distinct ((data s @ [k]) @ ks)"
      by simp
    then have "distinct (drop (length (data s) + 1 - ?m) (data s @ [k]) @ ks)"
      by (metis distinct_append distinct_drop in_set_dropD disjoint_iff)
    then show ?thesis by simp
  qed
  have bound: "int (length (data ?s)) \<le> maxlen ?s"
    using Cons.prems(2) Cons.prems(3) by auto
  have pos: "0 < maxlen ?s"
    using Cons.prems(2) by simp
  have "add_all ks ?s =
          Inr (?s\<lparr>data := drop (length (data ?s) + length ks - nat (maxlen ?s)) (data ?s @ ks)\<rparr>)"
    using Cons.IH [OF dist pos bound] .
  moreover have "drop (length (data ?s) + length ks - nat (maxlen ?s)) (data ?s @ ks)
                   = drop (length (data s) + length (k # ks) - ?m) (data s @ k # ks)"
  proof -
    let ?j = "length (data s) + 1 - ?m"
    let ?xs = "data s @ [k]"
    have "?j \<le> length ?xs"
      by simp
    then have "drop ?j ?xs @ ks = drop ?j (?xs @ ks)"
      by (rule drop_within_append)
    moreover have "data ?s = drop ?j ?xs"
      by simp
    ultimately have cat: "data ?s @ ks = drop ?j (?xs @ ks)"
      by (simp only:)
    have "drop (length (data ?s) + length ks - nat (maxlen ?s)) (data ?s @ ks)
            = drop (length (data ?s) + length ks - ?m) (drop ?j (?xs @ ks))"
      using cat by simp
    also have "\<dots> = drop (length (data ?s) + length ks - ?m + ?j) (?xs @ ks)"
      by (simp only: drop_drop)
    also have "length (data ?s) + length ks - ?m + ?j = length (data s) + length (k # ks) - ?m"
      using Cons.prems(2) Cons.prems(3) by auto
    finally show ?thesis
      by simp
  qed
  ultimately show ?case
    using step by simp
qed

text \<open>
  C3. Adding the distinct keys \<open>ks\<close> to a fresh set of capacity \<open>C \<ge> 1\<close> never raises;
  the set then holds exactly the last \<open>C\<close> keys of \<open>ks\<close> (all of them when there are at
  most \<open>C\<close>), oldest first, and adding a key that is already a member returns the set
  unchanged: neither membership nor the eviction order moves.
\<close>

theorem bounded_set_keeps_most_recent:
  assumes "distinct ks" and "0 < C"
  shows "\<exists>s. add_all ks (new_BoundedOrderedSet C) = Inr s
           \<and> data s = drop (length ks - nat C) ks
           \<and> (length ks \<le> nat C \<longrightarrow> (\<forall>k \<in> set ks. contains s k))
           \<and> (nat C < length ks \<longrightarrow>
                (\<forall>k. contains s k \<longleftrightarrow> k \<in> set (take (nat C) (rev ks))))
           \<and> (\<forall>k. contains s k \<longrightarrow> add k s = Inr s)"
proof -
  let ?init = "new_BoundedOrderedSet C :: 'a BoundedOrderedSet"
  let ?s = "?init\<lparr>data := drop (length ks - nat C) ks\<rparr>"
  have "distinct (data ?init @ ks)" and "0 < maxlen ?init" and "int (length (data ?init)) \<le> maxlen ?init"
    using assms by (simp_all add: new_BoundedOrderedSet_def)
  then have "add_all ks ?init =
      Inr (?init\<lparr>data := drop (length (data ?init) + length ks - nat (maxlen ?init)) (data ?init @ ks)\<rparr>)"
    by (rule add_all_data)
  then have "add_all ks ?init = Inr ?s"
    by (simp add: new_BoundedOrderedSet_def)
  moreover have "data ?s = drop (length ks - nat C) ks"
    by simp
  moreover have "length ks \<le> nat C \<longrightarrow> (\<forall>k \<in> set ks. contains ?s k)"
    by (simp add: contains_def)
  moreover have "set (take (nat C) (rev ks)) = set (drop (length ks - nat C) ks)"
    by (simp add: take_rev)
  then have "nat C < length ks \<longrightarrow>
               (\<forall>k. contains ?s k \<longleftrightarrow> k \<in> set (take (nat C) (rev ks)))"
    by (simp add: contains_def)
  moreover have "\<forall>k. contains ?s k \<longrightarrow> add k ?s = Inr ?s"
    by (simp add: contains_def add_member)
  ultimately show ?thesis
    by blast
qed

theorem bounded_set_keeps_most_recent_witness:
  "\<exists>s. add_all [''a'', ''b'', ''c''] (new_BoundedOrderedSet 2) = Inr s
     \<and> data s = [''b'', ''c'']
     \<and> \<not> contains s ''a'' \<and> contains s ''b'' \<and> contains s ''c''
     \<and> add ''b'' s = Inr s"
proof -
  have d: "distinct [''a'', ''b'', ''c'']" by simp
  have c: "(0::int) < 2" by simp
  from bounded_set_keeps_most_recent [OF d c]
  obtain s where s: "add_all [''a'', ''b'', ''c''] (new_BoundedOrderedSet 2) = Inr s"
    and ds: "data s = drop (length [''a'', ''b'', ''c''] - nat 2) [''a'', ''b'', ''c'']"
    and re: "\<forall>k. contains s k \<longrightarrow> add k s = Inr s"
    by blast
  from ds have ds': "data s = [''b'', ''c'']" by simp
  then have "contains s ''b''" and "contains s ''c''" and "\<not> contains s ''a''"
    by (simp_all add: contains_def)
  with s ds' re show ?thesis by blast
qed

section \<open>Retrying provider calls\<close>

lemma range_3: "[0..<3] = [0, 1, 2::nat]"
  by code_simp

lemma evo_post_unfold: "evo_post c r = evo_post_loop [0, 1, 2] c r None"
  by (simp only: evo_post_def MAX_RETRIES_def range_3)
















section \<open>What sending leaves untouched\<close>

lemma track_msg_id_other [simp]:
  "http_client (track_msg_id st r) = http_client st"
  "processed_message_ids (track_msg_id st r) = processed_message_ids st"
  "silenced_users (track_msg_id st r) = silenced_users st"
  "bot_sent_texts (track_msg_id st r) = bot_sent_texts st"
  "last_bot_message_time (track_msg_id st r) = last_bot_message_time st"
  "pending_messages (track_msg_id st r) = pending_messages st"
  "pending_message_tasks (track_msg_id st r) = pending_message_tasks st"
  by (simp_all add: track_msg_id_def split: option.splits sum.splits)

lemma send_media_loop_other:
  "send_media_loop st c n t tot i urls = (st', c') \<Longrightarrow>
     processed_message_ids st' = processed_message_ids st
   \<and> silenced_users st' = silenced_users st
   \<and> bot_sent_texts st' = bot_sent_texts st
   \<and> last_bot_message_time st' = last_bot_message_time st
   \<and> pending_messages st' = pending_messages st
   \<and> pending_message_tasks st' = pending_message_tasks st"
proof (induction urls arbitrary: st c i)
  case Nil
  then show ?case by simp
next
  case (Cons u urls)
  show ?case
  proof (cases "evo_post c (Send_media n ''image'' ''image/jpeg'' (if i = tot - 1 then t else []) u None)")
    case (fields res c1 slept)
    show ?thesis
    proof (cases res)
      case (Inl e)
      with fields Cons.prems show ?thesis by simp
    next
      case (Inr response)
      show ?thesis
      proof (cases "status_code response \<ge> 400")
        case True
        with Inr fields Cons.prems
        have "send_media_loop st c1 n t tot (i + 1) urls = (st', c')" by simp
        from Cons.IH [OF this] show ?thesis .
      next
        case False
        with Inr fields Cons.prems
        have "send_media_loop (track_msg_id st response) c1 n t tot (i + 1) urls = (st', c')" by simp
        from Cons.IH [OF this] show ?thesis by simp
      qed
    qed
  qed
qed

lemma send_evolution_message_other:
  "processed_message_ids (send_evolution_message st now n t urls) = processed_message_ids st
   \<and> silenced_users (send_evolution_message st now n t urls) = silenced_users st
   \<and> pending_messages (send_evolution_message st now n t urls) = pending_messages st
   \<and> pending_message_tasks (send_evolution_message st now n t urls) = pending_message_tasks st"
proof (cases "urls = []")
  case True
  then show ?thesis
    by (simp add: send_evolution_message_def Let_def split: option.splits prod.splits sum.splits)
next
  case False
  show ?thesis
  proof (cases "http_client st")
    case None
    then show ?thesis by (simp add: send_evolution_message_def Let_def)
  next
    case (Some client)
    obtain st' c' where l: "send_media_loop st client (clean_phone_or_jid n) (strip t) (int (length urls)) 0 urls = (st', c')"
      by (cases "send_media_loop st client (clean_phone_or_jid n) (strip t) (int (length urls)) 0 urls")
    from send_media_loop_other [OF l] False Some l show ?thesis
      by (simp add: send_evolution_message_def Let_def)
  qed
qed

section \<open>Echo recognition\<close>

lemma add_contains:
  assumes "0 < maxlen s"
  shows "\<exists>s'. add k s = Inr s' \<and> contains s' k"
proof (cases "k \<in> set (data s)")
  case True
  then show ?thesis by (simp add: add_def contains_def)
next
  case False
  show ?thesis
  proof (cases "data s")
    case Nil
    with False assms show ?thesis by (simp add: add_def contains_def)
  next
    case (Cons x rest)
    with False show ?thesis by (simp add: add_def contains_def popitem_first_def)
  qed
qed

lemma track_msg_id_contains:
  "0 < maxlen (bot_sent_message_ids st) \<Longrightarrow> key_id r = Some m \<Longrightarrow> m \<noteq> []
     \<Longrightarrow> contains (bot_sent_message_ids (track_msg_id st r)) m"
  using add_contains [of "bot_sent_message_ids st" m]
  by (auto simp add: track_msg_id_def)

lemma is_bot_message_layers:
  "is_bot_message cfg st now jid msg_id msg_text \<longleftrightarrow>
       (msg_id \<noteq> [] \<and> contains (bot_sent_message_ids st) msg_id)
     \<or> (\<exists>recent. bot_sent_texts st jid = Some recent \<and> msg_text \<in> set recent)
     \<or> now - (case last_bot_message_time st jid of None \<Rightarrow> 0 | Some t \<Rightarrow> t)
          < real_of_int (HUMAN_DETECTION_WINDOW_SECONDS cfg)"
  by (auto simp add: is_bot_message_def Let_def split: option.splits)

lemma handoff_of_bot_id:
  assumes "msg_id \<noteq> []" and "contains (bot_sent_message_ids (bot w)) msg_id"
  shows "silenced_users (bot (fst (handoff_detection cfg now w ev jid msg_id))) = silenced_users (bot w)"
  using assms
  by (simp add: handoff_detection_def raising_def is_bot_message_def split: sum.splits prod.splits)

lemma echo_not_silenced:
  assumes "event_key_fields ev = Inr (jid, from_me, msg_id)" and "truthy from_me"
    and "msg_id \<noteq> []" and "contains (bot_sent_message_ids (bot w)) msg_id"
  shows "silenced_users (bot (fst (process_single_event cfg now tr w ev))) = silenced_users (bot w)"
proof -
  have "\<And>ids. silenced_users (bot (fst (handoff_detection cfg now
           (w\<lparr>bot := (bot w)\<lparr>processed_message_ids := ids\<rparr>\<rparr>) ev jid msg_id))) = silenced_users (bot w)"
    using handoff_of_bot_id [of msg_id "w\<lparr>bot := (bot w)\<lparr>processed_message_ids := ids\<rparr>\<rparr>" for ids] assms(3,4)
    by simp
  with assms show ?thesis
    by (simp add: process_single_event_def raising_def Let_def split: sum.splits)
qed

lemma add_maxlen:
  "add k s = Inr s' \<Longrightarrow> maxlen s' = maxlen s"
  by (auto simp add: add_def bind_def popitem_first_def split: if_splits list.splits)

lemma add_room:
  "int (length (data s)) < maxlen s \<Longrightarrow>
     add k s = Inr (if k \<in> set (data s) then s else s\<lparr>data := data s @ [k]\<rparr>)"
  by (simp add: add_def)

lemma track_msg_id_maxlen:
  "maxlen (bot_sent_message_ids (track_msg_id st r)) = maxlen (bot_sent_message_ids st)"
  by (auto simp add: track_msg_id_def add_maxlen split: option.splits sum.splits)

lemma track_msg_id_room:
  assumes "int (length (data (bot_sent_message_ids st))) < maxlen (bot_sent_message_ids st)"
  shows "set (data (bot_sent_message_ids st)) \<subseteq> set (data (bot_sent_message_ids (track_msg_id st r)))"
    and "length (data (bot_sent_message_ids (track_msg_id st r)))
           \<le> length (data (bot_sent_message_ids st)) + 1"
  using add_room [OF assms]
  by (auto simp add: track_msg_id_def split: option.splits)

lemma send_media_loop_keeps:
  "contains (bot_sent_message_ids st) m
   \<Longrightarrow> int (length (data (bot_sent_message_ids st))) + int (length urls) \<le> maxlen (bot_sent_message_ids st)
   \<Longrightarrow> contains (bot_sent_message_ids (fst (send_media_loop st c cl txt tot i urls))) m"
proof (induction urls arbitrary: st c i)
  case Nil
  then show ?case by simp
next
  case (Cons u urls)
  let ?post = "evo_post c (Send_media cl ''image'' ''image/jpeg'' (if i = tot - 1 then txt else []) u None)"
  obtain res c' slept where p: "?post = (res, c', slept)"
    by (cases ?post)
  show ?case
  proof (cases res)
    case (Inl e)
    with p Cons.prems(1) show ?thesis by (simp add: Let_def)
  next
    case (Inr r)
    show ?thesis
    proof (cases "status_code r \<ge> 400")
      case True
      from Cons.prems have "int (length (data (bot_sent_message_ids st))) + int (length urls)
          \<le> maxlen (bot_sent_message_ids st)"
        by simp
      from Cons.IH [OF Cons.prems(1) this, of c' "i + 1"] p Inr True show ?thesis
        by (simp add: Let_def)
    next
      case False
      from Cons.prems(2) have room: "int (length (data (bot_sent_message_ids st))) < maxlen (bot_sent_message_ids st)"
        by simp
      from track_msg_id_room(1) [OF room, of r] Cons.prems(1)
      have k: "contains (bot_sent_message_ids (track_msg_id st r)) m"
        by (auto simp add: contains_def)
      from track_msg_id_room(2) [OF room, of r] Cons.prems(2)
      have "int (length (data (bot_sent_message_ids (track_msg_id st r)))) + int (length urls)
          \<le> maxlen (bot_sent_message_ids (track_msg_id st r))"
        by (simp add: track_msg_id_maxlen)
      from Cons.IH [OF k this, of c' "i + 1"] p Inr False show ?thesis
        by (simp add: Let_def)
    qed
  qed
qed

lemma media_photo_recorded:
  assumes "evo_post c (Send_media cl ''image'' ''image/jpeg'' (if i = tot - 1 then txt else []) u None)
             = (Inr r, c', slept)"
    and "status_code r < 400" and "key_id r = Some m" and "m \<noteq> []"
    and "int (length (data (bot_sent_message_ids st))) + 1 + int (length rest)
           \<le> maxlen (bot_sent_message_ids st)"
  shows "contains (bot_sent_message_ids (fst (send_media_loop st c cl txt tot i (u # rest)))) m"
proof -
  from assms(5) have room: "int (length (data (bot_sent_message_ids st))) < maxlen (bot_sent_message_ids st)"
    by simp
  then have "0 < maxlen (bot_sent_message_ids st)"
    by simp
  from track_msg_id_contains [OF this assms(3,4)]
  have k: "contains (bot_sent_message_ids (track_msg_id st r)) m" .
  from track_msg_id_room(2) [OF room, of r] assms(5)
  have "int (length (data (bot_sent_message_ids (track_msg_id st r)))) + int (length rest)
          \<le> maxlen (bot_sent_message_ids (track_msg_id st r))"
    by (simp add: track_msg_id_maxlen)
  from send_media_loop_keeps [OF k this, of c' cl "txt" tot "i + 1"] assms(1,2) show ?thesis
    by (simp add: Let_def)
qed

lemma media_send_ids:
  assumes "http_client st = Some c" and "clean_phone_or_jid n \<noteq> []" and "urls \<noteq> []"
  shows "bot_sent_message_ids (send_evolution_message st now n t urls)
         = bot_sent_message_ids (fst (send_media_loop st c (clean_phone_or_jid n) (strip t)
              (int (length urls)) 0 urls))"
  using assms by (simp add: send_evolution_message_def Let_def split: prod.splits)

lemma text_send_records:
  assumes "http_client st = Some c"
    and "evo_post c (Send_text (clean_phone_or_jid n) (strip t)) = (Inr r, c', slept)"
    and "status_code r < 400" and "strip t \<noteq> []" and "clean_phone_or_jid n \<noteq> []"
  shows "send_evolution_message st now n t [] =
     (let jid = clean_phone_or_jid n @ ''@s.whatsapp.net'';
          st1 = track_msg_id (st\<lparr>http_client := Some c'\<rparr>) r
      in st1\<lparr>bot_sent_texts := (bot_sent_texts st1)(jid \<mapsto>
               deque_append (case bot_sent_texts st1 jid of None \<Rightarrow> [] | Some d \<Rightarrow> d) (strip t)),
             last_bot_message_time := (last_bot_message_time st1)(jid \<mapsto> now)\<rparr>)"
  using assms by (simp add: send_evolution_message_def Let_def)

lemma deque_append_last:
  "x \<in> set (deque_append d x)"
  by (simp add: deque_append_def)

lemma text_send_layers:
  assumes "http_client st = Some c"
    and "evo_post c (Send_text (clean_phone_or_jid n) (strip t)) = (Inr r, c', slept)"
    and "status_code r < 400" and "strip t \<noteq> []" and "clean_phone_or_jid n \<noteq> []"
  shows "\<exists>recent. bot_sent_texts (send_evolution_message st now n t [])
                     (clean_phone_or_jid n @ ''@s.whatsapp.net'') = Some recent
                 \<and> strip t \<in> set recent"
    and "last_bot_message_time (send_evolution_message st now n t [])
           (clean_phone_or_jid n @ ''@s.whatsapp.net'') = Some now"
    and "key_id r = Some m \<Longrightarrow> m \<noteq> [] \<Longrightarrow> 0 < maxlen (bot_sent_message_ids st)
           \<Longrightarrow> contains (bot_sent_message_ids (send_evolution_message st now n t [])) m"
proof -
  note eq = text_send_records [OF assms, of now]
  show "\<exists>recent. bot_sent_texts (send_evolution_message st now n t [])
                     (clean_phone_or_jid n @ ''@s.whatsapp.net'') = Some recent
                 \<and> strip t \<in> set recent"
    by (simp add: eq Let_def deque_append_last)
  show "last_bot_message_time (send_evolution_message st now n t [])
           (clean_phone_or_jid n @ ''@s.whatsapp.net'') = Some now"
    by (simp add: eq Let_def)
  assume "key_id r = Some m" and "m \<noteq> []" and "0 < maxlen (bot_sent_message_ids st)"
  then have "contains (bot_sent_message_ids (track_msg_id (st\<lparr>http_client := Some c'\<rparr>) r)) m"
    using track_msg_id_contains [of "st\<lparr>http_client := Some c'\<rparr>" r m] by simp
  then show "contains (bot_sent_message_ids (send_evolution_message st now n t [])) m"
    by (simp add: eq Let_def)
qed

lemma document_pdf_recorded:
  assumes "http_client st = Some c" and "clean_phone_or_jid n \<noteq> []"
    and "(txt = [] \<and> c1 = c)
         \<or> (txt \<noteq> [] \<and> (\<exists>r1 s1. evo_post c (Send_text (clean_phone_or_jid n) txt) = (Inr r1, c1, s1)))"
    and "evo_post c1 (Send_media (clean_phone_or_jid n) ''document'' ''application/pdf'' [] pdf_url
           (Some filename)) = (Inr r, c2, slept)"
    and "status_code r < 400" and "key_id r = Some m" and "m \<noteq> []"
    and "0 < maxlen (bot_sent_message_ids st)"
  shows "contains (bot_sent_message_ids (send_evolution_document st n txt pdf_url filename)) m"
proof -
  have k: "\<And>st1. maxlen (bot_sent_message_ids st1) = maxlen (bot_sent_message_ids st)
      \<Longrightarrow> contains (bot_sent_message_ids (track_msg_id st1 r)) m"
    using track_msg_id_contains [OF _ assms(6,7)] assms(8) by simp
  from assms(3) show ?thesis
  proof
    assume "txt = [] \<and> c1 = c"
    with assms(1,2,4,5) k [of st] show ?thesis
      by (simp add: send_evolution_document_def Let_def)
  next
    assume "txt \<noteq> [] \<and> (\<exists>r1 s1. evo_post c (Send_text (clean_phone_or_jid n) txt) = (Inr r1, c1, s1))"
    then obtain r1 s1 where t: "txt \<noteq> []"
      and p: "evo_post c (Send_text (clean_phone_or_jid n) txt) = (Inr r1, c1, s1)"
      by blast
    from t p assms(1,2,4,5) k [of st] k [of "track_msg_id st r1"] show ?thesis
      by (simp add: send_evolution_document_def Let_def track_msg_id_maxlen)
  qed
qed

lemma document_text_recorded:
  assumes "http_client st = Some c" and "clean_phone_or_jid n \<noteq> []" and "txt \<noteq> []"
    and "evo_post c (Send_text (clean_phone_or_jid n) txt) = (Inr r, c1, slept)"
    and "status_code r < 400" and "key_id r = Some m" and "m \<noteq> []"
    and "int (length (data (bot_sent_message_ids st))) + 2 \<le> maxlen (bot_sent_message_ids st)"
  shows "contains (bot_sent_message_ids (send_evolution_document st n txt pdf_url filename)) m"
proof -
  let ?st1 = "track_msg_id st r"
  from assms(8) have room: "int (length (data (bot_sent_message_ids st))) < maxlen (bot_sent_message_ids st)"
    by simp
  then have "0 < maxlen (bot_sent_message_ids st)"
    by simp
  from track_msg_id_contains [OF this assms(6,7)]
  have k: "contains (bot_sent_message_ids ?st1) m" .
  from track_msg_id_room(2) [OF room, of r] assms(8)
  have "int (length (data (bot_sent_message_ids ?st1))) < maxlen (bot_sent_message_ids ?st1)"
    by (simp add: track_msg_id_maxlen)
  from track_msg_id_room(1) [OF this] k
  have k2: "\<And>r2. contains (bot_sent_message_ids (track_msg_id ?st1 r2)) m"
    by (auto simp add: contains_def)
  from assms(1-5) k k2 show ?thesis
    by (simp add: send_evolution_document_def Let_def split: prod.splits sum.splits)
qed

lemma handoff_layers:
  assumes "dict_get ev ''message'' (JObj []) = Inr m"
    and "extract_user_message (py_or m (JObj [])) = Inr (t, a)"
    and "str_strip t = Inr msg_text"
  shows "handoff_detection cfg now w ev jid msg_id =
     (if (msg_id \<noteq> [] \<and> contains (bot_sent_message_ids (bot w)) msg_id)
         \<or> (\<exists>recent. bot_sent_texts (bot w) jid = Some recent \<and> msg_text \<in> set recent)
         \<or> now - (case last_bot_message_time (bot w) jid of None \<Rightarrow> 0 | Some s \<Rightarrow> s)
              < real_of_int (HUMAN_DETECTION_WINDOW_SECONDS cfg)
         \<or> is_automated_greeting msg_text
      then (w, None)
      else (w\<lparr>bot := (bot w)\<lparr>silenced_users := (silenced_users (bot w))
                (jid \<mapsto> Timestamp (now + real_of_int (AUTO_REACTIVATE_MINUTES cfg * 60)))\<rparr>\<rparr>, None))"
proof -
  have c: "((msg_id \<noteq> [] \<and> contains (bot_sent_message_ids (bot w)) msg_id)
         \<or> (\<exists>recent. bot_sent_texts (bot w) jid = Some recent \<and> msg_text \<in> set recent)
         \<or> now - (case last_bot_message_time (bot w) jid of None \<Rightarrow> 0 | Some s \<Rightarrow> s)
              < real_of_int (HUMAN_DETECTION_WINDOW_SECONDS cfg)
         \<or> is_automated_greeting msg_text)
       = (is_bot_message cfg (bot w) now jid msg_id msg_text \<or> is_automated_greeting msg_text)"
    using is_bot_message_layers [of cfg "bot w" now jid msg_id msg_text] by blast
  show ?thesis
    unfolding c using assms by (simp add: handoff_detection_def raising_def)
qed

lemma outbound_event_layers:
  assumes "event_key_fields ev = Inr (jid, from_me, msg_id)" and "truthy from_me"
    and "jid \<noteq> []" and "\<not> endswith jid ''@g.us''" and "\<not> str_in ''broadcast'' jid"
    and "\<not> (msg_id \<noteq> [] \<and> contains (processed_message_ids (bot w)) msg_id)"
    and "0 < maxlen (processed_message_ids (bot w))"
    and "dict_get ev ''message'' (JObj []) = Inr m"
    and "extract_user_message (py_or m (JObj [])) = Inr (t, a)"
    and "str_strip t = Inr msg_text"
  shows "silenced_users (bot (fst (process_single_event cfg now tr w ev))) =
     (if (msg_id \<noteq> [] \<and> contains (bot_sent_message_ids (bot w)) msg_id)
         \<or> (\<exists>recent. bot_sent_texts (bot w) jid = Some recent \<and> msg_text \<in> set recent)
         \<or> now - (case last_bot_message_time (bot w) jid of None \<Rightarrow> 0 | Some s \<Rightarrow> s)
              < real_of_int (HUMAN_DETECTION_WINDOW_SECONDS cfg)
         \<or> is_automated_greeting msg_text
      then silenced_users (bot w)
      else (silenced_users (bot w))
             (jid \<mapsto> Timestamp (now + real_of_int (AUTO_REACTIVATE_MINUTES cfg * 60))))"
proof -
  obtain ids where ids: "(if msg_id \<noteq> [] then add msg_id (processed_message_ids (bot w))
                    else Inr (processed_message_ids (bot w))) = Inr ids"
    using add_contains [OF assms(7), of msg_id] by (cases "msg_id = []") auto
  let ?w1 = "w\<lparr>bot := (bot w)\<lparr>processed_message_ids := ids\<rparr>\<rparr>"
  have p: "process_single_event cfg now tr w ev = handoff_detection cfg now ?w1 ev jid msg_id"
    using assms(1-6) ids
    by (auto simp add: process_single_event_def raising_def Let_def)
  let ?bot = "(msg_id \<noteq> [] \<and> contains (bot_sent_message_ids (bot w)) msg_id)
         \<or> (\<exists>recent. bot_sent_texts (bot w) jid = Some recent \<and> msg_text \<in> set recent)
         \<or> now - (case last_bot_message_time (bot w) jid of None \<Rightarrow> 0 | Some s \<Rightarrow> s)
              < real_of_int (HUMAN_DETECTION_WINDOW_SECONDS cfg)
         \<or> is_automated_greeting msg_text"
  note h = handoff_layers [OF assms(8,9,10), of cfg now ?w1 jid msg_id]
  show ?thesis
  proof (cases ?bot)
    case True
    then have "handoff_detection cfg now ?w1 ev jid msg_id = (?w1, None)"
      unfolding h by auto
    then have eq: "silenced_users (bot (fst (process_single_event cfg now tr w ev))) = silenced_users (bot w)"
      unfolding p by simp
    show ?thesis
      unfolding if_P [OF True] by (rule eq)
  next
    case False
    then have "handoff_detection cfg now ?w1 ev jid msg_id =
       (?w1\<lparr>bot := (bot ?w1)\<lparr>silenced_users := (silenced_users (bot ?w1))
                (jid \<mapsto> Timestamp (now + real_of_int (AUTO_REACTIVATE_MINUTES cfg * 60)))\<rparr>\<rparr>, None)"
      unfolding h by auto
    then have eq: "silenced_users (bot (fst (process_single_event cfg now tr w ev))) =
        (silenced_users (bot w))(jid \<mapsto> Timestamp (now + real_of_int (AUTO_REACTIVATE_MINUTES cfg * 60)))"
      unfolding p by simp
    show ?thesis
      unfolding if_not_P [OF False] by (rule eq)
  qed
qed

text \<open>
  C6. \<^verbatim>\<open>_is_bot_message\<close> answers bot exactly when one of the three layers does: the
  (non-empty) message id is in the echo-id cache, or the text is in the conversation's
  recent-text buffer, or the time since the last own send to the conversation (since the
  epoch when there was none) is below the recognition window. An outbound-direction event that
  reaches the takeover check (a conversation that is neither a group nor a broadcast, an id
  not yet processed, a message with a text) leaves the silence registry as it was exactly when
  one of the three layers holds or the text is an automated greeting; otherwise the
  conversation is silenced for \<^verbatim>\<open>AUTO_REACTIVATE_MINUTES\<close>. An event whose id is in the
  echo-id cache never silences, whatever else it carries. The sends feed the layers: a text
  send that the provider accepts, after any number of retries, records the text and the time,
  and the id when the reply carries one; a document send records the id of the file and the
  id of its accompanying text, and every accepted photo of a media send records its id, while
  the cache has room for them.
\<close>

theorem bot_echo_three_layers:
  "(is_bot_message cfg st now jid msg_id msg_text \<longleftrightarrow>
       (msg_id \<noteq> [] \<and> contains (bot_sent_message_ids st) msg_id)
     \<or> (\<exists>recent. bot_sent_texts st jid = Some recent \<and> msg_text \<in> set recent)
     \<or> now - (case last_bot_message_time st jid of None \<Rightarrow> 0 | Some s \<Rightarrow> s)
          < real_of_int (HUMAN_DETECTION_WINDOW_SECONDS cfg))
   \<and> (event_key_fields ev = Inr (jid, from_me, msg_id) \<and> truthy from_me \<and> jid \<noteq> []
        \<and> \<not> endswith jid ''@g.us'' \<and> \<not> str_in ''broadcast'' jid
        \<and> \<not> (msg_id \<noteq> [] \<and> contains (processed_message_ids (bot w)) msg_id)
        \<and> 0 < maxlen (processed_message_ids (bot w))
        \<and> dict_get ev ''message'' (JObj []) = Inr m
        \<and> extract_user_message (py_or m (JObj [])) = Inr (t, a)
        \<and> str_strip t = Inr msg_text \<longrightarrow>
      silenced_users (bot (fst (process_single_event cfg now tr w ev))) =
        (if (msg_id \<noteq> [] \<and> contains (bot_sent_message_ids (bot w)) msg_id)
            \<or> (\<exists>recent. bot_sent_texts (bot w) jid = Some recent \<and> msg_text \<in> set recent)
            \<or> now - (case last_bot_message_time (bot w) jid of None \<Rightarrow> 0 | Some s \<Rightarrow> s)
                 < real_of_int (HUMAN_DETECTION_WINDOW_SECONDS cfg)
            \<or> is_automated_greeting msg_text
         then silenced_users (bot w)
         else (silenced_users (bot w))
                (jid \<mapsto> Timestamp (now + real_of_int (AUTO_REACTIVATE_MINUTES cfg * 60)))))
   \<and> (event_key_fields ev = Inr (jid, from_me, msg_id) \<and> truthy from_me \<and> msg_id \<noteq> []
        \<and> contains (bot_sent_message_ids (bot w)) msg_id \<longrightarrow>
      silenced_users (bot (fst (process_single_event cfg now tr w ev))) = silenced_users (bot w))
   \<and> (http_client st = Some c
        \<and> evo_post c (Send_text (clean_phone_or_jid n) (strip body)) = (Inr r, c', slept)
        \<and> status_code r < 400 \<and> strip body \<noteq> [] \<and> clean_phone_or_jid n \<noteq> [] \<longrightarrow>
      (\<exists>recent. bot_sent_texts (send_evolution_message st sent_at n body [])
                   (clean_phone_or_jid n @ ''@s.whatsapp.net'') = Some recent
                \<and> strip body \<in> set recent)
      \<and> last_bot_message_time (send_evolution_message st sent_at n body [])
           (clean_phone_or_jid n @ ''@s.whatsapp.net'') = Some sent_at
      \<and> (key_id r = Some sid \<and> sid \<noteq> [] \<and> 0 < maxlen (bot_sent_message_ids st) \<longrightarrow>
           contains (bot_sent_message_ids (send_evolution_message st sent_at n body [])) sid))
   \<and> (http_client st = Some c \<and> clean_phone_or_jid n \<noteq> []
        \<and> ((caption = [] \<and> c1 = c)
            \<or> (caption \<noteq> []
                \<and> (\<exists>r1 s1. evo_post c (Send_text (clean_phone_or_jid n) caption) = (Inr r1, c1, s1))))
        \<and> evo_post c1 (Send_media (clean_phone_or_jid n) ''document'' ''application/pdf'' [] pdf_url
              (Some filename)) = (Inr r, c2, slept)
        \<and> status_code r < 400 \<and> key_id r = Some sid \<and> sid \<noteq> []
        \<and> 0 < maxlen (bot_sent_message_ids st) \<longrightarrow>
      contains (bot_sent_message_ids (send_evolution_document st n caption pdf_url filename)) sid)
   \<and> (http_client st = Some c \<and> clean_phone_or_jid n \<noteq> [] \<and> caption \<noteq> []
        \<and> evo_post c (Send_text (clean_phone_or_jid n) caption) = (Inr r, c1, slept)
        \<and> status_code r < 400 \<and> key_id r = Some sid \<and> sid \<noteq> []
        \<and> int (length (data (bot_sent_message_ids st))) + 2 \<le> maxlen (bot_sent_message_ids st) \<longrightarrow>
      contains (bot_sent_message_ids (send_evolution_document st n caption pdf_url filename)) sid)
   \<and> (evo_post c (Send_media cl ''image'' ''image/jpeg'' (if i = tot - 1 then caption else []) u None)
          = (Inr r, c', slept)
        \<and> status_code r < 400 \<and> key_id r = Some sid \<and> sid \<noteq> []
        \<and> int (length (data (bot_sent_message_ids st))) + 1 + int (length rest)
             \<le> maxlen (bot_sent_message_ids st) \<longrightarrow>
      contains (bot_sent_message_ids (fst (send_media_loop st c cl caption tot i (u # rest)))) sid)
   \<and> (http_client st = Some c \<and> clean_phone_or_jid n \<noteq> [] \<and> urls \<noteq> [] \<longrightarrow>
      bot_sent_message_ids (send_evolution_message st sent_at n body urls)
        = bot_sent_message_ids (fst (send_media_loop st c (clean_phone_or_jid n) (strip body)
             (int (length urls)) 0 urls)))"
proof -
  have p1: "is_bot_message cfg st now jid msg_id msg_text \<longleftrightarrow>
       (msg_id \<noteq> [] \<and> contains (bot_sent_message_ids st) msg_id)
     \<or> (\<exists>recent. bot_sent_texts st jid = Some recent \<and> msg_text \<in> set recent)
     \<or> now - (case last_bot_message_time st jid of None \<Rightarrow> 0 | Some s \<Rightarrow> s)
          < real_of_int (HUMAN_DETECTION_WINDOW_SECONDS cfg)"
    by (rule is_bot_message_layers)
  have p2: "event_key_fields ev = Inr (jid, from_me, msg_id) \<and> truthy from_me \<and> jid \<noteq> []
        \<and> \<not> endswith jid ''@g.us'' \<and> \<not> str_in ''broadcast'' jid
        \<and> \<not> (msg_id \<noteq> [] \<and> contains (processed_message_ids (bot w)) msg_id)
        \<and> 0 < maxlen (processed_message_ids (bot w))
        \<and> dict_get ev ''message'' (JObj []) = Inr m
        \<and> extract_user_message (py_or m (JObj [])) = Inr (t, a)
        \<and> str_strip t = Inr msg_text \<longrightarrow>
      silenced_users (bot (fst (process_single_event cfg now tr w ev))) =
        (if (msg_id \<noteq> [] \<and> contains (bot_sent_message_ids (bot w)) msg_id)
            \<or> (\<exists>recent. bot_sent_texts (bot w) jid = Some recent \<and> msg_text \<in> set recent)
            \<or> now - (case last_bot_message_time (bot w) jid of None \<Rightarrow> 0 | Some s \<Rightarrow> s)
                 < real_of_int (HUMAN_DETECTION_WINDOW_SECONDS cfg)
            \<or> is_automated_greeting msg_text
         then silenced_users (bot w)
         else (silenced_users (bot w))
                (jid \<mapsto> Timestamp (now + real_of_int (AUTO_REACTIVATE_MINUTES cfg * 60))))"
    by (intro impI, elim conjE, rule outbound_event_layers; assumption)
  have p3: "event_key_fields ev = Inr (jid, from_me, msg_id) \<and> truthy from_me \<and> msg_id \<noteq> []
        \<and> contains (bot_sent_message_ids (bot w)) msg_id \<longrightarrow>
      silenced_users (bot (fst (process_single_event cfg now tr w ev))) = silenced_users (bot w)"
    using echo_not_silenced by blast
  have p4: "http_client st = Some c
        \<and> evo_post c (Send_text (clean_phone_or_jid n) (strip body)) = (Inr r, c', slept)
        \<and> status_code r < 400 \<and> strip body \<noteq> [] \<and> clean_phone_or_jid n \<noteq> [] \<longrightarrow>
      (\<exists>recent. bot_sent_texts (send_evolution_message st sent_at n body [])
                   (clean_phone_or_jid n @ ''@s.whatsapp.net'') = Some recent
                \<and> strip body \<in> set recent)
      \<and> last_bot_message_time (send_evolution_message st sent_at n body [])
           (clean_phone_or_jid n @ ''@s.whatsapp.net'') = Some sent_at
      \<and> (key_id r = Some sid \<and> sid \<noteq> [] \<and> 0 < maxlen (bot_sent_message_ids st) \<longrightarrow>
           contains (bot_sent_message_ids (send_evolution_message st sent_at n body [])) sid)"
  proof (intro impI, elim conjE)
    assume h: "http_client st = Some c"
      "evo_post c (Send_text (clean_phone_or_jid n) (strip body)) = (Inr r, c', slept)"
      "status_code r < 400" "strip body \<noteq> []" "clean_phone_or_jid n \<noteq> []"
    from text_send_layers(1) [OF h, of sent_at] text_send_layers(2) [OF h, of sent_at]
      text_send_layers(3) [OF h, of sid sent_at]
    show "(\<exists>recent. bot_sent_texts (send_evolution_message st sent_at n body [])
                   (clean_phone_or_jid n @ ''@s.whatsapp.net'') = Some recent
                \<and> strip body \<in> set recent)
      \<and> last_bot_message_time (send_evolution_message st sent_at n body [])
           (clean_phone_or_jid n @ ''@s.whatsapp.net'') = Some sent_at
      \<and> (key_id r = Some sid \<and> sid \<noteq> [] \<and> 0 < maxlen (bot_sent_message_ids st) \<longrightarrow>
           contains (bot_sent_message_ids (send_evolution_message st sent_at n body [])) sid)"
      by blast
  qed
  have p5: "http_client st = Some c \<and> clean_phone_or_jid n \<noteq> []
        \<and> ((caption = [] \<and> c1 = c)
            \<or> (caption \<noteq> []
                \<and> (\<exists>r1 s1. evo_post c (Send_text (clean_phone_or_jid n) caption) = (Inr r1, c1, s1))))
        \<and> evo_post c1 (Send_media (clean_phone_or_jid n) ''document'' ''application/pdf'' [] pdf_url
              (Some filename)) = (Inr r, c2, slept)
        \<and> status_code r < 400 \<and> key_id r = Some sid \<and> sid \<noteq> []
        \<and> 0 < maxlen (bot_sent_message_ids st) \<longrightarrow>
      contains (bot_sent_message_ids (send_evolution_document st n caption pdf_url filename)) sid"
    by (intro impI, elim conjE, rule document_pdf_recorded; assumption)
  have p6: "http_client st = Some c \<and> clean_phone_or_jid n \<noteq> [] \<and> caption \<noteq> []
        \<and> evo_post c (Send_text (clean_phone_or_jid n) caption) = (Inr r, c1, slept)
        \<and> status_code r < 400 \<and> key_id r = Some sid \<and> sid \<noteq> []
        \<and> int (length (data (bot_sent_message_ids st))) + 2 \<le> maxlen (bot_sent_message_ids st) \<longrightarrow>
      contains (bot_sent_message_ids (send_evolution_document st n caption pdf_url filename)) sid"
    by (intro impI, elim conjE, rule document_text_recorded; assumption)
  have p7: "evo_post c (Send_media cl ''image'' ''image/jpeg'' (if i = tot - 1 then caption else []) u None)
          = (Inr r, c', slept)
        \<and> status_code r < 400 \<and> key_id r = Some sid \<and> sid \<noteq> []
        \<and> int (length (data (bot_sent_message_ids st))) + 1 + int (length rest)
             \<le> maxlen (bot_sent_message_ids st) \<longrightarrow>
      contains (bot_sent_message_ids (fst (send_media_loop st c cl caption tot i (u # rest)))) sid"
    by (intro impI, elim conjE, rule media_photo_recorded; assumption)
  have p8: "http_client st = Some c \<and> clean_phone_or_jid n \<noteq> [] \<and> urls \<noteq> [] \<longrightarrow>
      bot_sent_message_ids (send_evolution_message st sent_at n body urls)
        = bot_sent_message_ids (fst (send_media_loop st c (clean_phone_or_jid n) (strip body)
             (int (length urls)) 0 urls))"
    using media_send_ids by blast
  from p1 p2 p3 p4 p5 p6 p7 p8 show ?thesis
    by (intro conjI)
qed

lemma text_event_fields:
  "event_key_fields (text_event jid fm (Some i) txt) = Inr (strip jid, JBool fm, strip i)"
  "event_key_fields (text_event jid fm None txt) = Inr (strip jid, JBool fm, [])"
  by (simp_all add: event_key_fields_def text_event_def py_or_def Let_def strip_def)

lemma strip_plain [simp]:
  "strip ''5215512345678'' = ''5215512345678''"
  "strip ''5215512345678@s.whatsapp.net'' = ''5215512345678@s.whatsapp.net''"
  "strip ''hola'' = ''hola''"
  "strip ''M1'' = ''M1''"
  by (simp_all add: strip_def isspace_char_def)

lemma digits_of_jid [simp]:
  "clean_phone_or_jid ''5215512345678@s.whatsapp.net'' = ''5215512345678''"
  by (simp add: clean_phone_or_jid_def isdigit_char_def ascii_digit_def)

lemma plain_jid:
  "\<not> (endswith ''5215512345678@s.whatsapp.net'' ''@g.us''
        \<or> str_in ''broadcast'' ''5215512345678@s.whatsapp.net'')"
  by (simp add: endswith_def)

lemma text_event_message:
  "dict_get (text_event jid fm i body) ''message'' (JObj []) = Inr (JObj [(''conversation'', JStr body)])"
  "extract_user_message (py_or (JObj [(''conversation'', JStr body)]) (JObj []))
     = Inr (py_or (JStr body) (JStr []), False)"
  by (simp_all add: text_event_def py_or_def extract_user_message_def)

lemma sent_hola:
  "data (bot_sent_message_ids (send_evolution_message (started_bot [accepted ''M1''])
      1000 ''5215512345678@s.whatsapp.net'' ''hola'' [])) = [''M1'']"
  "bot_sent_texts (send_evolution_message (started_bot [accepted ''M1''])
      1000 ''5215512345678@s.whatsapp.net'' ''hola'' []) ''5215512345678@s.whatsapp.net'' = Some [''hola'']"
  "last_bot_message_time (send_evolution_message (started_bot [accepted ''M1''])
      1000 ''5215512345678@s.whatsapp.net'' ''hola'' []) ''5215512345678@s.whatsapp.net'' = Some 1000"
  "processed_message_ids (send_evolution_message (started_bot [accepted ''M1''])
      1000 ''5215512345678@s.whatsapp.net'' ''hola'' []) = new_BoundedOrderedSet 4000"
  "silenced_users (send_evolution_message (started_bot [accepted ''M1''])
      1000 ''5215512345678@s.whatsapp.net'' ''hola'' []) = Map.empty"
  by (simp_all add: send_evolution_message_def started_bot_def accepted_def
      new_GlobalState_def new_BoundedOrderedSet_def evo_post_unfold post_def track_msg_id_def
      add_def deque_append_def Let_def)

lemma not_greetings:
  "\<not> is_automated_greeting ''hola''"
  "\<not> is_automated_greeting ''gracias''"
  by (simp_all add: is_automated_greeting_def lower_def lower_char_def startswith_def Let_def)

lemma strip_gracias [simp]:
  "strip ''gracias'' = ''gracias''"
  "strip ''X9'' = ''X9''"
  by (simp_all add: strip_def isspace_char_def)

theorem bot_echo_three_layers_witness:
  "silenced_users (bot (fst (process_single_event default_settings 2000 []
      ((started_world [accepted ''M1''])\<lparr>bot :=
          send_evolution_message (started_bot [accepted ''M1'']) 1000 ''5215512345678@s.whatsapp.net'' ''hola'' []\<rparr>)
      (text_event ''5215512345678@s.whatsapp.net'' True (Some ''M1'') ''gracias''))))
   = Map.empty
   \<and> silenced_users (bot (fst (process_single_event default_settings 2000 []
      ((started_world [accepted ''M1''])\<lparr>bot :=
          send_evolution_message (started_bot [accepted ''M1'']) 1000 ''5215512345678@s.whatsapp.net'' ''hola'' []\<rparr>)
      (text_event ''5215512345678@s.whatsapp.net'' True (Some ''X9'') ''hola''))))
   = Map.empty
   \<and> silenced_users (bot (fst (process_single_event default_settings 1002 []
      ((started_world [accepted ''M1''])\<lparr>bot :=
          send_evolution_message (started_bot [accepted ''M1'']) 1000 ''5215512345678@s.whatsapp.net'' ''hola'' []\<rparr>)
      (text_event ''5215512345678@s.whatsapp.net'' True (Some ''X9'') ''gracias''))))
   = Map.empty
   \<and> silenced_users (bot (fst (process_single_event default_settings 2000 []
      ((started_world [accepted ''M1''])\<lparr>bot :=
          send_evolution_message (started_bot [accepted ''M1'']) 1000 ''5215512345678@s.whatsapp.net'' ''hola'' []\<rparr>)
      (text_event ''5215512345678@s.whatsapp.net'' True (Some ''X9'') ''gracias''))))
   = [''5215512345678@s.whatsapp.net'' \<mapsto> Timestamp 5600]
   \<and> contains (bot_sent_message_ids (send_evolution_message (started_bot [accepted ''M1''])
        1000 ''5215512345678@s.whatsapp.net'' ''hola'' [])) ''M1''
   \<and> contains (bot_sent_message_ids (send_evolution_document (started_bot [accepted ''D1'', accepted ''D2''])
        ''5215512345678@s.whatsapp.net'' ''Ficha tecnica'' ''https://x/f.pdf'' ''f.pdf'')) ''D1''
   \<and> contains (bot_sent_message_ids (send_evolution_document (started_bot [accepted ''D1'', accepted ''D2''])
        ''5215512345678@s.whatsapp.net'' ''Ficha tecnica'' ''https://x/f.pdf'' ''f.pdf'')) ''D2''
   \<and> contains (bot_sent_message_ids (send_evolution_message (started_bot [accepted ''P1''])
        1000 ''5215512345678@s.whatsapp.net'' ''hola'' [''https://x/a.jpg''])) ''P1''"
proof -
  let ?n = "''5215512345678@s.whatsapp.net''"
  let ?st = "started_bot [accepted ''M1'']"
  let ?sent = "send_evolution_message ?st 1000 ?n ''hola'' []"
  let ?w = "(started_world [accepted ''M1''])\<lparr>bot := ?sent\<rparr>"
  let ?ok = "\<lambda>i. \<lparr>status_code = 200, retry_after = None, key_id = Some i\<rparr>"
  let ?e1 = "text_event ?n True (Some ''M1'') ''gracias''"
  let ?e2 = "text_event ?n True (Some ''X9'') ''hola''"
  let ?e3 = "text_event ?n True (Some ''X9'') ''gracias''"
  note by_id = bot_echo_three_layers [where cfg = default_settings and now = 2000 and jid = ?n
      and msg_id = "''M1''" and msg_text = "''gracias''" and ev = ?e1 and from_me = "JBool True"
      and w = ?w and m = "JObj [(''conversation'', JStr ''gracias'')]" and t = "JStr ''gracias''"
      and a = False and tr = "[]", THEN conjunct2, THEN conjunct1]
  note by_text = bot_echo_three_layers [where cfg = default_settings and now = 2000 and jid = ?n
      and msg_id = "''X9''" and msg_text = "''hola''" and ev = ?e2 and from_me = "JBool True"
      and w = ?w and m = "JObj [(''conversation'', JStr ''hola'')]" and t = "JStr ''hola''"
      and a = False and tr = "[]", THEN conjunct2, THEN conjunct1]
  note by_time = bot_echo_three_layers [where cfg = default_settings and now = 1002 and jid = ?n
      and msg_id = "''X9''" and msg_text = "''gracias''" and ev = ?e3 and from_me = "JBool True"
      and w = ?w and m = "JObj [(''conversation'', JStr ''gracias'')]" and t = "JStr ''gracias''"
      and a = False and tr = "[]", THEN conjunct2, THEN conjunct1]
  note human = bot_echo_three_layers [where cfg = default_settings and now = 2000 and jid = ?n
      and msg_id = "''X9''" and msg_text = "''gracias''" and ev = ?e3 and from_me = "JBool True"
      and w = ?w and m = "JObj [(''conversation'', JStr ''gracias'')]" and t = "JStr ''gracias''"
      and a = False and tr = "[]", THEN conjunct2, THEN conjunct1]
  note text_send = bot_echo_three_layers [where st = ?st
      and c = "\<lparr>replies = [accepted ''M1''], requests = []\<rparr>" and n = ?n and body = "''hola''"
      and r = "?ok ''M1''"
      and c' = "\<lparr>replies = [], requests = [Send_text ''5215512345678'' ''hola'']\<rparr>"
      and slept = "[]" and sent_at = 1000 and sid = "''M1''",
      THEN conjunct2, THEN conjunct2, THEN conjunct2, THEN conjunct1]
  let ?dst = "started_bot [accepted ''D1'', accepted ''D2'']"
  let ?dc = "\<lparr>replies = [accepted ''D1'', accepted ''D2''], requests = []\<rparr>"
  let ?dc1 = "\<lparr>replies = [accepted ''D2''], requests = [Send_text ''5215512345678'' ''Ficha tecnica'']\<rparr>"
  let ?dc2 = "\<lparr>replies = [], requests = [Send_text ''5215512345678'' ''Ficha tecnica'',
      Send_media ''5215512345678'' ''document'' ''application/pdf'' [] ''https://x/f.pdf'' (Some ''f.pdf'')]\<rparr>"
  note doc_pdf = bot_echo_three_layers [where st = ?dst and c = ?dc and n = ?n
      and caption = "''Ficha tecnica''" and ?c1.0 = ?dc1 and pdf_url = "''https://x/f.pdf''"
      and filename = "''f.pdf''" and r = "?ok ''D2''" and ?c2.0 = ?dc2 and slept = "[]" and sid = "''D2''",
      THEN conjunct2, THEN conjunct2, THEN conjunct2, THEN conjunct2, THEN conjunct1]
  note doc_text = bot_echo_three_layers [where st = ?dst and c = ?dc and n = ?n
      and caption = "''Ficha tecnica''" and ?c1.0 = ?dc1 and pdf_url = "''https://x/f.pdf''"
      and filename = "''f.pdf''" and r = "?ok ''D1''" and slept = "[]" and sid = "''D1''",
      THEN conjunct2, THEN conjunct2, THEN conjunct2, THEN conjunct2, THEN conjunct2, THEN conjunct1]
  let ?pst = "started_bot [accepted ''P1'']"
  let ?pc = "\<lparr>replies = [accepted ''P1''], requests = []\<rparr>"
  let ?pc' = "\<lparr>replies = [], requests = [Send_media ''5215512345678'' ''image'' ''image/jpeg''
      ''hola'' ''https://x/a.jpg'' None]\<rparr>"
  note photo = bot_echo_three_layers [where st = ?pst and c = ?pc and cl = "''5215512345678''"
      and i = 0 and tot = 1 and caption = "''hola''" and u = "''https://x/a.jpg''" and rest = "[]"
      and r = "?ok ''P1''" and c' = ?pc' and slept = "[]" and sid = "''P1''",
      THEN conjunct2, THEN conjunct2, THEN conjunct2, THEN conjunct2, THEN conjunct2, THEN conjunct2,
      THEN conjunct1]
  note media = bot_echo_three_layers [where st = ?pst and c = ?pc and n = ?n
      and urls = "[''https://x/a.jpg'']" and sent_at = 1000 and body = "''hola''",
      THEN conjunct2, THEN conjunct2, THEN conjunct2, THEN conjunct2, THEN conjunct2, THEN conjunct2,
      THEN conjunct2]
  have w1: "silenced_users (bot (fst (process_single_event default_settings 2000 [] ?w ?e1))) = Map.empty"
    using by_id plain_jid
    by (simp add: text_event_fields text_event_message sent_hola not_greetings contains_def
        py_or_def extract_user_message_def default_settings_def new_BoundedOrderedSet_def)
  have w2: "silenced_users (bot (fst (process_single_event default_settings 2000 [] ?w ?e2))) = Map.empty"
    using by_text plain_jid
    by (simp add: text_event_fields text_event_message sent_hola not_greetings contains_def
        py_or_def extract_user_message_def default_settings_def new_BoundedOrderedSet_def)
  have w3: "silenced_users (bot (fst (process_single_event default_settings 1002 [] ?w ?e3))) = Map.empty"
    using by_time plain_jid
    by (simp add: text_event_fields text_event_message sent_hola not_greetings contains_def
        py_or_def extract_user_message_def default_settings_def new_BoundedOrderedSet_def)
  have w4: "silenced_users (bot (fst (process_single_event default_settings 2000 [] ?w ?e3)))
      = [?n \<mapsto> Timestamp 5600]"
    using human plain_jid
    by (simp add: text_event_fields text_event_message sent_hola not_greetings contains_def
        py_or_def extract_user_message_def default_settings_def new_BoundedOrderedSet_def)
  have w5: "contains (bot_sent_message_ids ?sent) ''M1''"
    using text_send
    by (simp add: started_bot_def accepted_def new_GlobalState_def new_BoundedOrderedSet_def
        evo_post_unfold post_def)
  have w6: "contains (bot_sent_message_ids (send_evolution_document ?dst ?n ''Ficha tecnica''
      ''https://x/f.pdf'' ''f.pdf'')) ''D1''"
    using doc_text
    by (simp add: started_bot_def accepted_def new_GlobalState_def new_BoundedOrderedSet_def
        evo_post_unfold post_def)
  have w7: "contains (bot_sent_message_ids (send_evolution_document ?dst ?n ''Ficha tecnica''
      ''https://x/f.pdf'' ''f.pdf'')) ''D2''"
    using doc_pdf
    by (simp add: started_bot_def accepted_def new_GlobalState_def new_BoundedOrderedSet_def
        evo_post_unfold post_def)
  have "contains (bot_sent_message_ids (fst (send_media_loop ?pst ?pc ''5215512345678'' ''hola'' 1 0
      [''https://x/a.jpg'']))) ''P1''"
    using photo
    by (simp add: started_bot_def accepted_def new_GlobalState_def new_BoundedOrderedSet_def
        evo_post_unfold post_def)
  moreover have "bot_sent_message_ids (send_evolution_message ?pst 1000 ?n ''hola'' [''https://x/a.jpg''])
      = bot_sent_message_ids (fst (send_media_loop ?pst ?pc ''5215512345678'' ''hola'' 1 0
          [''https://x/a.jpg'']))"
    using media
    by (simp add: started_bot_def accepted_def new_GlobalState_def)
  ultimately have w8: "contains (bot_sent_message_ids (send_evolution_message ?pst 1000 ?n ''hola''
      [''https://x/a.jpg''])) ''P1''"
    by simp
  from w1 w2 w3 w4 w5 w6 w7 w8 show ?thesis
    by (intro conjI)
qed

section \<open>What each kind of send records\<close>

text \<open>
  C8 on the code. A document send and a media send that the provider accepts record the
  message ids only: the recent-text buffer and the time of the last send stay empty. The
  text send, beside them, records all three.
\<close>

theorem document_and_media_sends_record_only_ids:
  "data (bot_sent_message_ids (send_evolution_document (started_bot [accepted ''D1'', accepted ''D2''])
      ''5215512345678@s.whatsapp.net'' ''Ficha tecnica'' ''https://x/f.pdf'' ''f.pdf'')) = [''D1'', ''D2'']
   \<and> bot_sent_texts (send_evolution_document (started_bot [accepted ''D1'', accepted ''D2''])
      ''5215512345678@s.whatsapp.net'' ''Ficha tecnica'' ''https://x/f.pdf'' ''f.pdf'') = Map.empty
   \<and> last_bot_message_time (send_evolution_document (started_bot [accepted ''D1'', accepted ''D2''])
      ''5215512345678@s.whatsapp.net'' ''Ficha tecnica'' ''https://x/f.pdf'' ''f.pdf'') = Map.empty
   \<and> data (bot_sent_message_ids (send_evolution_message (started_bot [accepted ''P1''])
      1000 ''5215512345678@s.whatsapp.net'' ''hola'' [''https://x/a.jpg''])) = [''P1'']
   \<and> bot_sent_texts (send_evolution_message (started_bot [accepted ''P1''])
      1000 ''5215512345678@s.whatsapp.net'' ''hola'' [''https://x/a.jpg'']) = Map.empty
   \<and> last_bot_message_time (send_evolution_message (started_bot [accepted ''P1''])
      1000 ''5215512345678@s.whatsapp.net'' ''hola'' [''https://x/a.jpg'']) = Map.empty
   \<and> data (bot_sent_message_ids (send_evolution_message (started_bot [accepted ''T1''])
      1000 ''5215512345678@s.whatsapp.net'' ''hola'' [])) = [''T1'']
   \<and> bot_sent_texts (send_evolution_message (started_bot [accepted ''T1''])
      1000 ''5215512345678@s.whatsapp.net'' ''hola'' []) ''5215512345678@s.whatsapp.net'' = Some [''hola'']
   \<and> last_bot_message_time (send_evolution_message (started_bot [accepted ''T1''])
      1000 ''5215512345678@s.whatsapp.net'' ''hola'' []) ''5215512345678@s.whatsapp.net'' = Some 1000"
  by (simp add: send_evolution_document_def send_evolution_message_def started_bot_def accepted_def
      new_GlobalState_def new_BoundedOrderedSet_def evo_post_unfold post_def track_msg_id_def
      add_def deque_append_def Let_def)

section \<open>The webhook always acknowledges\<close>

text \<open>
  C9. Whatever the request, \<^verbatim>\<open>evolution_webhook\<close> returns an acknowledgment, which the
  framework sends with status 200: \<^verbatim>\<open>invalid_json\<close> for an unparseable body, \<^verbatim>\<open>no_data\<close>
  for a payload without data, \<^verbatim>\<open>accepted\<close> for an event array or a single event, and
  \<^verbatim>\<open>error_but_acked\<close> for any exception in between. Events are handed to a background
  task exactly when the acknowledgment is \<^verbatim>\<open>accepted\<close>, and no exception leaves that task.
\<close>

theorem webhook_always_acknowledges:
  "http_status (evolution_webhook has_bot parsed) = 200
   \<and> (\<exists>a spawned. evolution_webhook has_bot parsed = Inr (a, spawned)
         \<and> (spawned \<noteq> None \<longleftrightarrow> a = Accepted))
   \<and> (\<forall>e. parsed = Inl e \<longrightarrow> evolution_webhook has_bot parsed = Inr (Ignored ''invalid_json'', None))
   \<and> (\<forall>kvs. parsed = Inr (JObj kvs) \<and> map_of kvs ''data'' = None \<longrightarrow>
         evolution_webhook has_bot parsed = Inr (Ignored ''no_data'', None))
   \<and> (\<forall>kvs x xs. parsed = Inr (JObj kvs) \<and> map_of kvs ''data'' = Some (JArr (x # xs)) \<and> has_bot \<longrightarrow>
         evolution_webhook has_bot parsed = Inr (Accepted, Some (x # xs)))
   \<and> (\<forall>kvs f fs. parsed = Inr (JObj kvs) \<and> map_of kvs ''data'' = Some (JObj (f # fs)) \<and> has_bot \<longrightarrow>
         evolution_webhook has_bot parsed = Inr (Accepted, Some [JObj (f # fs)]))
   \<and> snd (background_process_events cfg w events) = None"
proof -
  have ack: "\<exists>a spawned. evolution_webhook has_bot parsed = Inr (a, spawned)
         \<and> (spawned \<noteq> None \<longleftrightarrow> a = Accepted)"
  proof (cases parsed)
    case (Inl e)
    then show ?thesis by (simp add: evolution_webhook_def)
  next
    case (Inr body)
    show ?thesis
    proof (cases "webhook_body has_bot body")
      case (Inl e)
      with Inr show ?thesis by (simp add: evolution_webhook_def)
    next
      case r: (Inr res)
      obtain a spawned where res: "res = (a, spawned)" by (cases res)
      from r res have "spawned \<noteq> None \<longleftrightarrow> a = Accepted"
        by (cases body) (auto simp add: webhook_body_def bind_def Let_def split: if_splits sum.splits)
      with Inr r res show ?thesis by (simp add: evolution_webhook_def)
    qed
  qed
  then have "http_status (evolution_webhook has_bot parsed) = 200"
    by (auto simp add: http_status_def)
  moreover have "\<forall>e. parsed = Inl e \<longrightarrow> evolution_webhook has_bot parsed = Inr (Ignored ''invalid_json'', None)"
    by (simp add: evolution_webhook_def)
  moreover have "\<forall>kvs. parsed = Inr (JObj kvs) \<and> map_of kvs ''data'' = None \<longrightarrow>
         evolution_webhook has_bot parsed = Inr (Ignored ''no_data'', None)"
    by (simp add: evolution_webhook_def webhook_body_def)
  moreover have "\<forall>kvs x xs. parsed = Inr (JObj kvs) \<and> map_of kvs ''data'' = Some (JArr (x # xs)) \<and> has_bot \<longrightarrow>
         evolution_webhook has_bot parsed = Inr (Accepted, Some (x # xs))"
    by (simp add: evolution_webhook_def webhook_body_def)
  moreover have "\<forall>kvs f fs. parsed = Inr (JObj kvs) \<and> map_of kvs ''data'' = Some (JObj (f # fs)) \<and> has_bot \<longrightarrow>
         evolution_webhook has_bot parsed = Inr (Accepted, Some [JObj (f # fs)])"
    by (simp add: evolution_webhook_def webhook_body_def)
  moreover have "snd (background_process_events cfg w events) = None"
    by (simp add: background_process_events_def)
  ultimately show ?thesis
    using ack by blast
qed

theorem webhook_always_acknowledges_witness:
  "evolution_webhook True (Inr (JObj [(''event'', JStr ''messages.upsert''),
      (''data'', JObj [(''key'', JNum 7)])]))
     = Inr (Accepted, Some [JObj [(''key'', JNum 7)]])
   \<and> evolution_webhook True (Inl ValueError) = Inr (Ignored ''invalid_json'', None)
   \<and> evolution_webhook True (Inr (JObj [(''event'', JStr ''connection.update'')]))
     = Inr (Ignored ''no_data'', None)
   \<and> snd (process_single_event default_settings 1000 [] (started_world []) (JObj [(''key'', JNum 7)]))
       = Some AttributeError
   \<and> snd (background_process_events default_settings (started_world [])
        [(1000, [], JObj [(''key'', JNum 7)])]) = None"
proof -
  let ?p = "Inr (JObj [(''event'', JStr ''messages.upsert''), (''data'', JObj [(''key'', JNum 7)])])"
  let ?q = "Inr (JObj [(''event'', JStr ''connection.update'')])"
  note main = webhook_always_acknowledges [of True ?p default_settings "started_world []"
      "[(1000, [], JObj [(''key'', JNum 7)])]"]
  note inv = webhook_always_acknowledges [of True "Inl ValueError"]
  note nod = webhook_always_acknowledges [of True ?q]
  have "evolution_webhook True ?p = Inr (Accepted, Some [JObj [(''key'', JNum 7)]])"
    using main by simp
  moreover have "evolution_webhook True (Inl ValueError) = Inr (Ignored ''invalid_json'', None)"
    using inv by simp
  moreover have "evolution_webhook True ?q = Inr (Ignored ''no_data'', None)"
    using nod by simp
  moreover have "snd (process_single_event default_settings 1000 [] (started_world []) (JObj [(''key'', JNum 7)]))
       = Some AttributeError"
    by (simp add: process_single_event_def event_key_fields_def raising_def py_or_def)
  moreover have "snd (background_process_events default_settings (started_world [])
        [(1000, [], JObj [(''key'', JNum 7)])]) = None"
    using main by simp
  ultimately show ?thesis by blast
qed

section \<open>Events without a message id\<close>

lemma accumulate_bot_other:
  "processed_message_ids (bot (accumulate cfg now w jid m)) = processed_message_ids (bot w)"
  "silenced_users (bot (accumulate cfg now w jid m)) = silenced_users (bot w)"
  "http_client (bot (accumulate cfg now w jid m)) = http_client (bot w)"
  "turns (accumulate cfg now w jid m) = turns w"
  by (simp_all add: accumulate_def Let_def)

lemma handoff_detection_ids:
  "processed_message_ids (bot (fst (handoff_detection cfg now w ev jid i))) = processed_message_ids (bot w)"
  by (simp add: handoff_detection_def raising_def split: sum.splits prod.splits)

lemma inbound_message_ids:
  "processed_message_ids (bot (fst (inbound_message cfg now tr w ev jid i))) = processed_message_ids (bot w)"
  by (simp add: inbound_message_def raising_def Let_def accumulate_bot_other
      send_evolution_message_other split: sum.splits prod.splits)

text \<open>
  C10. For an event whose message id is absent or empty and whose conversation identity is
  present, the dedup cache is left as it was, and (unless the identity is a group or a
  broadcast) the event goes straight to the branch of its direction, on the unchanged
  state: it is never dropped as a duplicate. Delivered twice, it is processed twice.
\<close>

theorem idless_event_skips_dedup:
  assumes "event_key_fields ev = Inr (jid, from_me, [])" and "jid \<noteq> []"
  shows "processed_message_ids (bot (fst (process_single_event cfg now tr w ev)))
           = processed_message_ids (bot w)
         \<and> (\<not> (endswith jid ''@g.us'' \<or> str_in ''broadcast'' jid) \<longrightarrow>
              process_single_event cfg now tr w ev =
                (if truthy from_me then handoff_detection cfg now w ev jid []
                 else inbound_message cfg now tr w ev jid []))"
proof -
  have same: "w\<lparr>bot := (bot w)\<lparr>processed_message_ids := processed_message_ids (bot w)\<rparr>\<rparr> = w"
    by simp
  show ?thesis
    using assms
    by (simp add: process_single_event_def raising_def Let_def same
        handoff_detection_ids inbound_message_ids)
qed


lemma inbound_text_accumulates:
  assumes "strip txt \<noteq> []"
  shows "inbound_message cfg now tr w (text_event jid False i txt) r m
           = (accumulate cfg now w r (strip txt), None)"
proof -
  from assms have "txt \<noteq> []"
    by (auto simp add: strip_def)
  with assms show ?thesis
    by (simp add: inbound_message_def text_event_def raising_def extract_user_message_def py_or_def)
qed

theorem idless_event_skips_dedup_witness:
  "pending_messages (bot (fst (process_single_event default_settings 1001 []
       (fst (process_single_event default_settings 1000 [] (started_world [])
          (text_event ''5215512345678@s.whatsapp.net'' False None ''hola'')))
       (text_event ''5215512345678@s.whatsapp.net'' False None ''hola''))))
     ''5215512345678@s.whatsapp.net'' = Some [''hola'', ''hola'']
   \<and> data (processed_message_ids (bot (fst (process_single_event default_settings 1001 []
       (fst (process_single_event default_settings 1000 [] (started_world [])
          (text_event ''5215512345678@s.whatsapp.net'' False None ''hola'')))
       (text_event ''5215512345678@s.whatsapp.net'' False None ''hola''))))) = []"
proof -
  let ?jid = "''5215512345678@s.whatsapp.net''"
  let ?ev = "text_event ?jid False None ''hola''"
  let ?w0 = "started_world []"
  have fields: "event_key_fields ?ev = Inr (?jid, JBool False, [])"
    by (simp add: text_event_fields)
  have ne: "?jid \<noteq> []" by simp
  let ?w1 = "accumulate default_settings 1000 ?w0 ?jid ''hola''"
  note at_first = idless_event_skips_dedup [OF fields ne, of default_settings 1000 "[]" ?w0]
  note at_second = idless_event_skips_dedup [OF fields ne, of default_settings 1001 "[]" ?w1]
  have first: "process_single_event default_settings 1000 [] ?w0 ?ev = (?w1, None)"
    using at_first plain_jid
      inbound_text_accumulates [of "''hola''" default_settings 1000 "[]" ?w0 ?jid None ?jid "[]"]
    by simp
  have second: "process_single_event default_settings 1001 [] ?w1 ?ev
                 = (accumulate default_settings 1001 ?w1 ?jid ''hola'', None)"
    using at_second plain_jid
      inbound_text_accumulates [of "''hola''" default_settings 1001 "[]" ?w1 ?jid None ?jid "[]"]
    by simp
  have ids: "processed_message_ids (bot (fst (process_single_event default_settings 1001 [] ?w1 ?ev)))
                 = processed_message_ids (bot ?w1)"
    using at_second by blast
  have "pending_messages (bot (accumulate default_settings 1001 ?w1 ?jid ''hola'')) ?jid
          = Some [''hola'', ''hola'']"
    by (simp add: accumulate_def Let_def started_world_def started_bot_def new_GlobalState_def)
  moreover have "data (processed_message_ids (bot ?w1)) = []"
    by (simp add: accumulate_bot_other started_world_def started_bot_def new_GlobalState_def
        new_BoundedOrderedSet_def)
  ultimately show ?thesis
    using first second ids by simp
qed

text \<open>
  A text event from the counterpart, with a message id not seen before, reaches the
  accumulation of main.py 905 with its stripped text, once its id has been recorded.
\<close>

lemma text_event_reaches_accumulate:
  assumes "strip jid \<noteq> []"
    and "\<not> (endswith (strip jid) ''@g.us'' \<or> str_in ''broadcast'' (strip jid))"
    and "strip txt \<noteq> []"
    and "\<not> contains (processed_message_ids (bot w)) (strip i)"
    and "0 < maxlen (processed_message_ids (bot w))"
  shows "\<exists>ids. process_single_event cfg now tr w (text_event jid False (Some i) txt)
           = (accumulate cfg now (w\<lparr>bot := (bot w)\<lparr>processed_message_ids := ids\<rparr>\<rparr>)
                (strip jid) (strip txt), None)"
proof -
  from add_contains [OF assms(5), of "strip i"]
  obtain ids where ids: "add (strip i) (processed_message_ids (bot w)) = Inr ids"
    by blast
  let ?ids = "if strip i \<noteq> [] then ids else processed_message_ids (bot w)"
  have "process_single_event cfg now tr w (text_event jid False (Some i) txt)
         = inbound_message cfg now tr (w\<lparr>bot := (bot w)\<lparr>processed_message_ids := ?ids\<rparr>\<rparr>)
             (text_event jid False (Some i) txt) (strip jid) (strip i)"
    using assms(1,2,4) ids
    by (simp add: process_single_event_def text_event_fields raising_def Let_def)
  then have "process_single_event cfg now tr w (text_event jid False (Some i) txt)
         = (accumulate cfg now (w\<lparr>bot := (bot w)\<lparr>processed_message_ids := ?ids\<rparr>\<rparr>)
              (strip jid) (strip txt), None)"
    by (simp only: inbound_text_accumulates [OF assms(3)])
  then show ?thesis
    by (rule exI)
qed

section \<open>Silence and the commands\<close>

lemma lower_activar [simp]: "lower ''/activar'' = ''/activar''" "lower ''hola'' = ''hola''"
  by (simp_all add: lower_def lower_char_def)

text \<open>
  C5 on the code. With a timed silence still running, the turn \<^verbatim>\<open>/activar\<close> returns at the
  silence check (main.py 390-393) before the command is looked at: the entry stays and no
  request is posted. With the permanent entry \<^verbatim>\<open>True\<close>, the test \<^verbatim>\<open>isinstance(True, (int,
  float))\<close> holds and \<^verbatim>\<open>time.time() < True\<close> does not, so the next turn of any text removes
  the entry and goes on to the reply pipeline.
\<close>

theorem unmute_unreachable_and_permanent_silence_dropped:
  "snd (process_accumulated_messages default_settings 1000
      ((started_bot [accepted ''M1''])\<lparr>
          silenced_users := [''5215512345678@s.whatsapp.net'' \<mapsto> Timestamp 4600],
          pending_messages := [''5215512345678@s.whatsapp.net'' \<mapsto> [''/activar'']]\<rparr>)
      ''5215512345678@s.whatsapp.net'') = Some (''/activar'', Silenced)
   \<and> silenced_users (fst (process_accumulated_messages default_settings 1000
      ((started_bot [accepted ''M1''])\<lparr>
          silenced_users := [''5215512345678@s.whatsapp.net'' \<mapsto> Timestamp 4600],
          pending_messages := [''5215512345678@s.whatsapp.net'' \<mapsto> [''/activar'']]\<rparr>)
      ''5215512345678@s.whatsapp.net'')) ''5215512345678@s.whatsapp.net'' = Some (Timestamp 4600)
   \<and> http_client (fst (process_accumulated_messages default_settings 1000
      ((started_bot [accepted ''M1''])\<lparr>
          silenced_users := [''5215512345678@s.whatsapp.net'' \<mapsto> Timestamp 4600],
          pending_messages := [''5215512345678@s.whatsapp.net'' \<mapsto> [''/activar'']]\<rparr>)
      ''5215512345678@s.whatsapp.net'')) = Some \<lparr>replies = [accepted ''M1''], requests = []\<rparr>
   \<and> snd (process_accumulated_messages default_settings 1000
      ((started_bot [accepted ''M1''])\<lparr>
          silenced_users := [''5215512345678@s.whatsapp.net'' \<mapsto> PyTrue],
          pending_messages := [''5215512345678@s.whatsapp.net'' \<mapsto> [''hola'']]\<rparr>)
      ''5215512345678@s.whatsapp.net'') = Some (''hola'', Pipeline)
   \<and> silenced_users (fst (process_accumulated_messages default_settings 1000
      ((started_bot [accepted ''M1''])\<lparr>
          silenced_users := [''5215512345678@s.whatsapp.net'' \<mapsto> PyTrue],
          pending_messages := [''5215512345678@s.whatsapp.net'' \<mapsto> [''hola'']]\<rparr>)
      ''5215512345678@s.whatsapp.net'')) ''5215512345678@s.whatsapp.net'' = None"
  by (simp add: process_accumulated_messages_def check_silence_def is_int_or_float_def
      as_number_def started_bot_def new_GlobalState_def Let_def)

lemma pam_silenced:
  assumes "silenced_users st jid = Some (Timestamp e)" and "pending_messages st jid = Some msgs"
    and "msgs \<noteq> []" and "now < e"
  shows "process_accumulated_messages cfg now st jid =
           (st\<lparr>pending_messages := (pending_messages st)(jid := None),
               pending_message_tasks := (pending_message_tasks st)(jid := None)\<rparr>,
            Some (if length msgs = 1 then hd msgs else join '' | '' msgs, Silenced))"
  using assms
  by (simp add: process_accumulated_messages_def check_silence_def is_int_or_float_def
      as_number_def Let_def)

lemma pam_expired:
  assumes "silenced_users st jid = Some (Timestamp e)" and "pending_messages st jid = Some msgs"
    and "msgs \<noteq> []" and "e \<le> now"
  shows "\<exists>st' oc. process_accumulated_messages cfg now st jid =
           (st', Some (if length msgs = 1 then hd msgs else join '' | '' msgs, oc))
         \<and> oc \<noteq> Silenced \<and> (oc \<noteq> Command_silencio \<longrightarrow> silenced_users st' jid = None)"
  using assms
  by (simp add: process_accumulated_messages_def check_silence_def is_int_or_float_def
      as_number_def Let_def send_evolution_message_other split: option.splits)

text \<open>
  C4, as amended. For a conversation with a timed silence entry of expiry \<open>e\<close> and pending
  messages: a turn that fires at a time before \<open>e\<close> only clears the pending buffer (nothing
  is posted to the provider, the entry stays, the reply pipeline is not reached); a turn
  that fires at \<open>e\<close> or later is not silenced, and the entry is removed (unless the turn
  is the command \<^verbatim>\<open>/silencio\<close>, which sets a new one).
\<close>

theorem timed_silence_checked_when_turn_fires:
  assumes "silenced_users st jid = Some (Timestamp e)" and "pending_messages st jid = Some msgs"
    and "msgs \<noteq> []"
  shows "(now < e \<longrightarrow>
            process_accumulated_messages cfg now st jid =
              (st\<lparr>pending_messages := (pending_messages st)(jid := None),
                  pending_message_tasks := (pending_message_tasks st)(jid := None)\<rparr>,
               Some (if length msgs = 1 then hd msgs else join '' | '' msgs, Silenced)))
       \<and> (e \<le> now \<longrightarrow>
            (\<exists>st' oc. process_accumulated_messages cfg now st jid =
                (st', Some (if length msgs = 1 then hd msgs else join '' | '' msgs, oc))
              \<and> oc \<noteq> Silenced \<and> (oc \<noteq> Command_silencio \<longrightarrow> silenced_users st' jid = None)))"
  using pam_silenced [OF assms] pam_expired [OF assms] by blast


theorem timed_silence_checked_when_turn_fires_witness:
  "process_accumulated_messages default_settings 1030
      ((started_bot [])\<lparr>silenced_users := [''5215512345678@s.whatsapp.net'' \<mapsto> Timestamp 1060],
                          pending_messages := [''5215512345678@s.whatsapp.net'' \<mapsto> [''hola'']]\<rparr>)
      ''5215512345678@s.whatsapp.net''
     = ((started_bot [])\<lparr>silenced_users := [''5215512345678@s.whatsapp.net'' \<mapsto> Timestamp 1060],
                          pending_messages := Map.empty, pending_message_tasks := Map.empty\<rparr>,
        Some (''hola'', Silenced))
   \<and> snd (process_accumulated_messages default_settings 1061
      ((started_bot [])\<lparr>silenced_users := [''5215512345678@s.whatsapp.net'' \<mapsto> Timestamp 1060],
                          pending_messages := [''5215512345678@s.whatsapp.net'' \<mapsto> [''hola'']]\<rparr>)
      ''5215512345678@s.whatsapp.net'') \<noteq> Some (''hola'', Silenced)"
proof -
  let ?jid = "''5215512345678@s.whatsapp.net''"
  let ?st = "(started_bot [])\<lparr>silenced_users := [?jid \<mapsto> Timestamp 1060],
                          pending_messages := [?jid \<mapsto> [''hola'']]\<rparr>"
  have s: "silenced_users ?st ?jid = Some (Timestamp 1060)"
    and p: "pending_messages ?st ?jid = Some [''hola'']" and n: "[''hola''] \<noteq> []"
    by simp_all
  have early: "process_accumulated_messages default_settings 1030 ?st ?jid =
              (?st\<lparr>pending_messages := (pending_messages ?st)(?jid := None),
                  pending_message_tasks := (pending_message_tasks ?st)(?jid := None)\<rparr>,
               Some (if length [''hola''] = 1 then hd [''hola''] else join '' | '' [''hola''], Silenced))"
    using timed_silence_checked_when_turn_fires [OF s p n, of 1030 default_settings] by simp
  have late: "\<exists>st' oc. process_accumulated_messages default_settings 1061 ?st ?jid =
                (st', Some (if length [''hola''] = 1 then hd [''hola''] else join '' | '' [''hola''], oc))
              \<and> oc \<noteq> Silenced \<and> (oc \<noteq> Command_silencio \<longrightarrow> silenced_users st' ?jid = None)"
    using timed_silence_checked_when_turn_fires [OF s p n, of 1061 default_settings] by simp
  from early have "process_accumulated_messages default_settings 1030 ?st ?jid
     = ((started_bot [])\<lparr>silenced_users := [?jid \<mapsto> Timestamp 1060],
                          pending_messages := Map.empty, pending_message_tasks := Map.empty\<rparr>,
        Some (''hola'', Silenced))"
    by (simp add: started_bot_def new_GlobalState_def)
  moreover from late have "snd (process_accumulated_messages default_settings 1061 ?st ?jid)
      \<noteq> Some (''hola'', Silenced)"
    by auto
  ultimately show ?thesis by blast
qed

text \<open>
  C4 as stated fails: the silence is checked when the debounce timer fires, not when the
  event arrives. A message that arrives at 1058, inside a silence that lasts from 1000 to
  1060, is handed to the reply pipeline when its timer fires at 1062.
\<close>

theorem late_message_answered_after_expiry:
  "(1000::real) < 1058 \<and> (1058::real) < 1060
   \<and> turns (run_until default_settings 1062
        (deliver default_settings
           \<lparr>bot = (started_bot [])\<lparr>silenced_users :=
                    [''5215512345678@s.whatsapp.net'' \<mapsto> Timestamp 1060]\<rparr>,
             tasks = [], turns = []\<rparr>
           [(1058, ''5215512345678@s.whatsapp.net'', ''hola'')]))
       = [(''5215512345678@s.whatsapp.net'', ''hola'', Pipeline)]"
  by (simp add: run_until_def due_def accumulate_def resume_def Let_def
      process_accumulated_messages_def check_silence_def is_int_or_float_def as_number_def
      started_bot_def new_GlobalState_def default_settings_def)

section \<open>Timers and handles stay consistent\<close>

lemma pam_handles:
  "pending_message_tasks (fst (process_accumulated_messages cfg now st j))
     = (pending_message_tasks st)(j := None)"
  by (simp add: process_accumulated_messages_def Let_def check_silence_def
      send_evolution_message_other split: option.splits)

lemma pam_pending:
  "pending_messages (fst (process_accumulated_messages cfg now st j))
     = (pending_messages st)(j := None)"
  by (simp add: process_accumulated_messages_def Let_def check_silence_def
      send_evolution_message_other split: option.splits)

lemma status_update_same: "status t = s \<Longrightarrow> t\<lparr>status := s\<rparr> = t"
  by auto

lemma resume_not_sleeping:
  assumes "h < length (tasks w)" and "status (tasks w ! h) \<noteq> Sleeping"
  shows "resume cfg now h w = w\<lparr>tasks := (tasks w)[h := (tasks w ! h)\<lparr>status := Finished\<rparr>]\<rparr>"
proof (cases "status (tasks w ! h)")
  case Finished
  from Finished have "(tasks w)[h := (tasks w ! h)\<lparr>status := Finished\<rparr>] = tasks w"
    by (simp add: status_update_same)
  with Finished assms show ?thesis
    by (simp add: resume_def)
qed (use assms in \<open>simp_all add: resume_def\<close>)

lemma resume_sleeping:
  assumes "h < length (tasks w)" and "status (tasks w ! h) = Sleeping"
  shows "\<exists>b turn st. resume cfg now h w =
           w\<lparr>bot := b, tasks := (tasks w)[h := (tasks w ! h)\<lparr>status := st\<rparr>], turns := turns w @ turn\<rparr>
         \<and> (st = Running \<or> st = Finished)
         \<and> process_accumulated_messages cfg now (bot w) (task_jid (tasks w ! h))
             = (b, case turn of [] \<Rightarrow> None | x # xs \<Rightarrow> Some (snd x))
         \<and> (turn = [] \<or> (\<exists>m oc. turn = [(task_jid (tasks w ! h), m, oc)]))"
proof (cases "process_accumulated_messages cfg now (bot w) (task_jid (tasks w ! h))")
  case (Pair b r)
  show ?thesis
  proof (cases r)
    case None
    with Pair assms show ?thesis
      by (intro exI [of _ b] exI [of _ "[]"] exI [of _ Finished]) (simp add: resume_def)
  next
    case (Some x)
    obtain m oc where x: "x = (m, oc)" by (cases x)
    with Some Pair assms show ?thesis
      by (intro exI [of _ b] exI [of _ "[(task_jid (tasks w ! h), m, oc)]"]
            exI [of _ "if oc = Pipeline then Running else Finished"]) (simp add: resume_def Let_def)
  qed
qed

lemma consistentI:
  assumes "\<And>h. h < length (tasks w) \<Longrightarrow> status (tasks w ! h) \<noteq> Interrupted"
    and "\<And>j h. pending_message_tasks (bot w) j = Some h \<Longrightarrow>
            h < length (tasks w) \<and> status (tasks w ! h) = Sleeping \<and> task_jid (tasks w ! h) = j"
    and "\<And>h. h < length (tasks w) \<Longrightarrow> status (tasks w ! h) = Sleeping \<Longrightarrow>
            pending_message_tasks (bot w) (task_jid (tasks w ! h)) = Some h"
  shows "timers_consistent w"
  using assms unfolding timers_consistent_def by blast

lemma consistentD:
  assumes "timers_consistent w"
  shows "h < length (tasks w) \<Longrightarrow> status (tasks w ! h) \<noteq> Interrupted"
    and "pending_message_tasks (bot w) j = Some h \<Longrightarrow>
            h < length (tasks w) \<and> status (tasks w ! h) = Sleeping \<and> task_jid (tasks w ! h) = j"
    and "h < length (tasks w) \<Longrightarrow> status (tasks w ! h) = Sleeping \<Longrightarrow>
            pending_message_tasks (bot w) (task_jid (tasks w ! h)) = Some h"
  using assms unfolding timers_consistent_def by blast+

lemma accumulate_tasks:
  "tasks (accumulate cfg now w jid m) =
     (case pending_message_tasks (bot w) jid of
        None \<Rightarrow> tasks w
      | Some old \<Rightarrow> if old < length (tasks w) \<and> \<not> task_done (tasks w ! old)
                    then (tasks w)[old := cancel (tasks w ! old)] else tasks w)
     @ [\<lparr>task_jid = jid, wake_at = now + MESSAGE_ACCUMULATION_SECONDS cfg, status = Sleeping\<rparr>]"
  by (simp add: accumulate_def Let_def)

lemma accumulate_handles:
  "pending_message_tasks (bot (accumulate cfg now w jid m))
     = (pending_message_tasks (bot w))(jid \<mapsto> length (tasks w))"
  by (simp add: accumulate_def Let_def split: option.splits)

lemma accumulate_consistent:
  assumes inv: "timers_consistent w"
  shows "timers_consistent (accumulate cfg now w jid m)"
proof -
  let ?ts = "tasks w"
  let ?n = "length ?ts"
  let ?new = "\<lparr>task_jid = jid, wake_at = now + MESSAGE_ACCUMULATION_SECONDS cfg, status = Sleeping\<rparr>"
  let ?w' = "accumulate cfg now w jid m"
  note reg = accumulate_handles [of cfg now w jid m]
  obtain ts' where acc: "tasks ?w' = ts' @ [?new]" and len: "length ts' = ?n"
    and same: "\<And>h. h < ?n \<Longrightarrow> pending_message_tasks (bot w) jid \<noteq> Some h \<Longrightarrow> ts' ! h = ?ts ! h"
    and cancelled: "\<And>h. h < ?n \<Longrightarrow> pending_message_tasks (bot w) jid = Some h \<Longrightarrow>
                       status (ts' ! h) = Cancel_requested"
  proof (cases "pending_message_tasks (bot w) jid")
    case None
    show ?thesis
      by (rule that [of ?ts]) (simp_all add: accumulate_tasks None)
  next
    case (Some old)
    from consistentD(2) [OF inv Some]
    have old: "old < ?n" "status (?ts ! old) = Sleeping" by simp_all
    show ?thesis
      by (rule that [of "?ts[old := (?ts ! old)\<lparr>status := Cancel_requested\<rparr>]"])
         (use old Some in \<open>simp_all add: accumulate_tasks task_done_def cancel_def\<close>)
  qed
  show ?thesis
  proof (rule consistentI)
    fix h assume "h < length (tasks ?w')"
    then have "h < ?n \<or> h = ?n" using acc len by auto
    then show "status (tasks ?w' ! h) \<noteq> Interrupted"
    proof
      assume lt: "h < ?n"
      show ?thesis
      proof (cases "pending_message_tasks (bot w) jid = Some h")
        case True
        from cancelled [OF lt True] lt len acc show ?thesis by (simp add: nth_append)
      next
        case False
        from same [OF lt False] consistentD(1) [OF inv lt] lt len acc show ?thesis
          by (simp add: nth_append)
      qed
    next
      assume "h = ?n"
      with acc len show ?thesis by (simp add: nth_append)
    qed
  next
    fix j h assume a: "pending_message_tasks (bot ?w') j = Some h"
    show "h < length (tasks ?w') \<and> status (tasks ?w' ! h) = Sleeping \<and> task_jid (tasks ?w' ! h) = j"
    proof (cases "j = jid")
      case True
      with a reg have "h = ?n" by simp
      with True acc len show ?thesis by (simp add: nth_append)
    next
      case False
      with a reg have r: "pending_message_tasks (bot w) j = Some h" by simp
      from consistentD(2) [OF inv r]
      have h: "h < ?n" "status (?ts ! h) = Sleeping" "task_jid (?ts ! h) = j" by simp_all
      have "pending_message_tasks (bot w) jid \<noteq> Some h"
      proof
        assume "pending_message_tasks (bot w) jid = Some h"
        from consistentD(2) [OF inv this] h False show False by simp
      qed
      from same [OF h(1) this] h acc len show ?thesis by (simp add: nth_append)
    qed
  next
    fix h assume a: "h < length (tasks ?w')" and s: "status (tasks ?w' ! h) = Sleeping"
    from a have "h < ?n \<or> h = ?n" using acc len by auto
    then show "pending_message_tasks (bot ?w') (task_jid (tasks ?w' ! h)) = Some h"
    proof
      assume lt: "h < ?n"
      have nreg: "pending_message_tasks (bot w) jid \<noteq> Some h"
      proof
        assume "pending_message_tasks (bot w) jid = Some h"
        from cancelled [OF lt this] s lt len acc show False by (simp add: nth_append)
      qed
      from same [OF lt nreg] lt len acc have eq: "tasks ?w' ! h = ?ts ! h"
        by (simp add: nth_append)
      with s have sl: "status (?ts ! h) = Sleeping" by simp
      from consistentD(3) [OF inv lt sl]
      have r: "pending_message_tasks (bot w) (task_jid (?ts ! h)) = Some h" .
      with nreg have "task_jid (?ts ! h) \<noteq> jid" by auto
      with r eq reg show ?thesis by simp
    next
      assume "h = ?n"
      with acc len reg show ?thesis by (simp add: nth_append)
    qed
  qed
qed

lemma resume_consistent:
  assumes inv: "timers_consistent w"
  shows "timers_consistent (resume cfg now h w)"
proof (cases "h < length (tasks w)")
  case False
  with inv show ?thesis by (simp add: resume_def)
next
  case lt: True
  let ?ts = "tasks w"
  let ?n = "length ?ts"
  let ?w' = "resume cfg now h w"
  let ?j = "task_jid (?ts ! h)"
  obtain st where tasks': "tasks ?w' = ?ts[h := (?ts ! h)\<lparr>status := st\<rparr>]"
    and st: "st = Running \<or> st = Finished"
    and reg: "status (?ts ! h) = Sleeping \<Longrightarrow>
                pending_message_tasks (bot ?w') = (pending_message_tasks (bot w))(?j := None)"
    and reg': "status (?ts ! h) \<noteq> Sleeping \<Longrightarrow> pending_message_tasks (bot ?w') = pending_message_tasks (bot w)"
  proof (cases "status (?ts ! h) = Sleeping")
    case False
    show ?thesis
      by (rule that [of Finished]) (use False in \<open>simp_all add: resume_not_sleeping [OF lt False]\<close>)
  next
    case True
    from resume_sleeping [OF lt True, of cfg now]
    obtain b turn st where eq: "?w' =
           w\<lparr>bot := b, tasks := ?ts[h := (?ts ! h)\<lparr>status := st\<rparr>], turns := turns w @ turn\<rparr>"
      and st: "st = Running \<or> st = Finished"
      and pam: "process_accumulated_messages cfg now (bot w) ?j
             = (b, case turn of [] \<Rightarrow> None | x # xs \<Rightarrow> Some (snd x))"
      by blast
    from pam have "pending_message_tasks b = (pending_message_tasks (bot w))(?j := None)"
      using pam_handles [of cfg now "bot w" ?j] by simp
    with eq st True show ?thesis
      by (intro that [of st]) simp_all
  qed
  have len: "length (tasks ?w') = ?n" using tasks' by simp
  show ?thesis
  proof (rule consistentI)
    fix k assume "k < length (tasks ?w')"
    with len have k: "k < ?n" by simp
    from consistentD(1) [OF inv k] st tasks' k
    show "status (tasks ?w' ! k) \<noteq> Interrupted"
      by (cases "k = h") auto
  next
    fix j k assume a: "pending_message_tasks (bot ?w') j = Some k"
    have r: "pending_message_tasks (bot w) j = Some k \<and> k \<noteq> h"
    proof (cases "status (?ts ! h) = Sleeping")
      case True
      from a reg [OF True] have j: "j \<noteq> ?j" and r: "pending_message_tasks (bot w) j = Some k"
        by (auto split: if_splits)
      from consistentD(2) [OF inv r] j have "k \<noteq> h" by auto
      with r show ?thesis by simp
    next
      case False
      from a reg' [OF False] have r: "pending_message_tasks (bot w) j = Some k" by simp
      from consistentD(2) [OF inv r] False have "k \<noteq> h" by auto
      with r show ?thesis by simp
    qed
    from consistentD(2) [OF inv conjunct1 [OF r]] r tasks'
    show "k < length (tasks ?w') \<and> status (tasks ?w' ! k) = Sleeping \<and> task_jid (tasks ?w' ! k) = j"
      by simp
  next
    fix k assume a: "k < length (tasks ?w')" and s: "status (tasks ?w' ! k) = Sleeping"
    from a len have k: "k < ?n" by simp
    from s st k tasks' have neq: "k \<noteq> h" by auto
    with s tasks' have sk: "status (?ts ! k) = Sleeping" and eq: "tasks ?w' ! k = ?ts ! k" by simp_all
    from consistentD(3) [OF inv k sk]
    have r: "pending_message_tasks (bot w) (task_jid (?ts ! k)) = Some k" .
    show "pending_message_tasks (bot ?w') (task_jid (tasks ?w' ! k)) = Some k"
    proof (cases "status (?ts ! h) = Sleeping")
      case True
      from consistentD(3) [OF inv lt True] r neq have "task_jid (?ts ! k) \<noteq> ?j" by auto
      with r eq reg [OF True] show ?thesis by simp
    next
      case False
      with r eq reg' [OF False] show ?thesis by simp
    qed
  qed
qed

lemma exec_consistent: "timers_consistent w \<Longrightarrow> timers_consistent (exec cfg s w)"
  by (cases s) (simp_all add: accumulate_consistent resume_consistent)

lemma run_consistent: "timers_consistent w \<Longrightarrow> timers_consistent (fold (exec cfg) steps w)"
  by (induction steps arbitrary: w) (simp_all add: exec_consistent)

section \<open>One conversation among many\<close>

lemma join_single: "(if length xs = 1 then hd xs else join sep xs) = join sep xs"
proof (cases xs)
  case Nil
  then show ?thesis by simp
next
  case (Cons x ys)
  then show ?thesis by (cases ys) simp_all
qed

lemma join_single_Suc: "(if length xs = Suc 0 then hd xs else join sep xs) = join sep xs"
  using join_single [of xs sep] by simp

lemma pam_turn:
  assumes "pending_messages st jid = Some texts" and "texts \<noteq> []"
  shows "\<exists>st' oc. process_accumulated_messages cfg now st jid = (st', Some (join '' | '' texts, oc))
           \<and> (silenced_users st jid = None \<and> lower (join '' | '' texts) \<noteq> ''/silencio''
                \<and> lower (join '' | '' texts) \<noteq> ''/activar'' \<longrightarrow> oc = Pipeline)"
  using assms
  by (simp add: process_accumulated_messages_def Let_def join_single_Suc check_silence_def
      split: option.splits)

lemma pam_silence_other:
  "j \<noteq> j' \<Longrightarrow> silenced_users (fst (process_accumulated_messages cfg now st j')) j = silenced_users st j"
  by (simp add: process_accumulated_messages_def Let_def check_silence_def
      send_evolution_message_other split: option.splits)

text \<open>What resuming a task of another conversation leaves alone.\<close>

lemma resume_other_jid:
  assumes inv: "timers_consistent w" and h: "pending_message_tasks (bot w) jid \<noteq> Some h"
  shows "pending_messages (bot (resume cfg now h w)) jid = pending_messages (bot w) jid
       \<and> pending_message_tasks (bot (resume cfg now h w)) jid = pending_message_tasks (bot w) jid
       \<and> silenced_users (bot (resume cfg now h w)) jid = silenced_users (bot w) jid
       \<and> of_jid jid (turns (resume cfg now h w)) = of_jid jid (turns w)
       \<and> length (tasks (resume cfg now h w)) = length (tasks w)
       \<and> (\<forall>k. k \<noteq> h \<longrightarrow> tasks (resume cfg now h w) ! k = tasks w ! k)"
proof (cases "h < length (tasks w)")
  case False
  then show ?thesis by (simp add: resume_def)
next
  case lt: True
  show ?thesis
  proof (cases "status (tasks w ! h) = Sleeping")
    case False
    from resume_not_sleeping [OF lt False, of cfg now] show ?thesis by simp
  next
    case True
    let ?j = "task_jid (tasks w ! h)"
    from consistentD(3) [OF inv lt True] h have neq: "jid \<noteq> ?j" by auto
    from resume_sleeping [OF lt True, of cfg now]
    obtain b turn st where eq: "resume cfg now h w =
           w\<lparr>bot := b, tasks := (tasks w)[h := (tasks w ! h)\<lparr>status := st\<rparr>], turns := turns w @ turn\<rparr>"
      and pam: "process_accumulated_messages cfg now (bot w) ?j
             = (b, case turn of [] \<Rightarrow> None | x # xs \<Rightarrow> Some (snd x))"
      and turn: "turn = [] \<or> (\<exists>m oc. turn = [(?j, m, oc)])"
      by blast
    from pam have b: "b = fst (process_accumulated_messages cfg now (bot w) ?j)" by simp
    have "pending_messages b jid = pending_messages (bot w) jid"
      and "pending_message_tasks b jid = pending_message_tasks (bot w) jid"
      and "silenced_users b jid = silenced_users (bot w) jid"
      unfolding b using neq by (simp_all add: pam_pending pam_handles pam_silence_other)
    moreover from turn neq have "of_jid jid (turns w @ turn) = of_jid jid (turns w)"
      by (auto simp add: of_jid_def)
    ultimately show ?thesis
      unfolding eq by simp
  qed
qed

lemma quiet_resume:
  assumes "quiet w jid lg"
  shows "quiet (resume cfg now h w) jid lg"
proof -
  from assms have inv: "timers_consistent w" and "pending_message_tasks (bot w) jid \<noteq> Some h"
    by (simp_all add: quiet_def)
  from resume_other_jid [OF this, of cfg now] resume_consistent [OF inv, of cfg now h] assms
  show ?thesis by (simp add: quiet_def)
qed

lemma quiet_fold:
  assumes "quiet w jid lg"
  shows "quiet (fold (\<lambda>(now, h) v. resume cfg now h v) sched w) jid lg"
  using assms
proof (induction sched arbitrary: w)
  case Nil
  then show ?case by simp
next
  case (Cons x sched)
  obtain now h where x: "x = (now, h)" by (cases x)
  from Cons.IH [OF quiet_resume [OF Cons.prems, of cfg now h]] x show ?case by simp
qed

lemma bursting_resume_other:
  assumes "bursting w jid n texts wk lg sil" and "h \<noteq> n"
  shows "bursting (resume cfg now h w) jid n texts wk lg sil"
proof -
  from assms have inv: "timers_consistent w" and "pending_message_tasks (bot w) jid \<noteq> Some h"
    by (simp_all add: bursting_def)
  from resume_other_jid [OF this, of cfg now] resume_consistent [OF inv, of cfg now h] assms
  show ?thesis by (simp add: bursting_def)
qed

lemma bursting_fold:
  assumes "bursting w jid n texts wk lg sil" and "\<forall>x \<in> set sched. snd x \<noteq> n"
  shows "bursting (fold (\<lambda>(now, h) v. resume cfg now h v) sched w) jid n texts wk lg sil"
  using assms
proof (induction sched arbitrary: w)
  case Nil
  then show ?case by simp
next
  case (Cons x sched)
  obtain now h where x: "x = (now, h)" by (cases x)
  with Cons.prems have "h \<noteq> n" by simp
  from Cons.IH [OF bursting_resume_other [OF Cons.prems(1) this, of cfg now]] Cons.prems(2) x
  show ?case by simp
qed

lemma bursting_fire:
  assumes "bursting w jid n texts wk lg sil"
  shows "\<exists>oc. quiet (resume cfg now n w) jid (lg @ [(jid, join '' | '' texts, oc)])
           \<and> (sil = None \<and> lower (join '' | '' texts) \<noteq> ''/silencio''
                \<and> lower (join '' | '' texts) \<noteq> ''/activar'' \<longrightarrow> oc = Pipeline)"
proof -
  from assms have inv: "timers_consistent w" and lt: "n < length (tasks w)"
    and reg: "pending_message_tasks (bot w) jid = Some n"
    and p: "pending_messages (bot w) jid = Some texts" and ne: "texts \<noteq> []"
    and s: "silenced_users (bot w) jid = sil" and l: "of_jid jid (turns w) = lg"
    by (simp_all add: bursting_def)
  from consistentD(2) [OF inv reg]
  have sl: "status (tasks w ! n) = Sleeping" and j: "task_jid (tasks w ! n) = jid" by simp_all
  from pam_turn [OF p ne, of cfg now] s
  obtain st' oc where pam: "process_accumulated_messages cfg now (bot w) jid
        = (st', Some (join '' | '' texts, oc))"
    and oc: "sil = None \<and> lower (join '' | '' texts) \<noteq> ''/silencio''
                \<and> lower (join '' | '' texts) \<noteq> ''/activar'' \<longrightarrow> oc = Pipeline"
    by blast
  from lt sl j pam have eq: "resume cfg now n w =
      w\<lparr>bot := st', tasks := (tasks w)[n := (tasks w ! n)\<lparr>status := (if oc = Pipeline then Running else Finished)\<rparr>],
        turns := turns w @ [(jid, join '' | '' texts, oc)]\<rparr>"
    by (simp add: resume_def Let_def)
  from pam have st': "st' = fst (process_accumulated_messages cfg now (bot w) jid)" by simp
  have "pending_messages st' jid = None" and "pending_message_tasks st' jid = None"
    unfolding st' by (simp_all add: pam_pending pam_handles)
  moreover have "of_jid jid (turns w @ [(jid, join '' | '' texts, oc)]) = lg @ [(jid, join '' | '' texts, oc)]"
    using l by (simp add: of_jid_def)
  moreover have "timers_consistent (resume cfg now n w)"
    by (rule resume_consistent [OF inv])
  ultimately have "quiet (resume cfg now n w) jid (lg @ [(jid, join '' | '' texts, oc)])"
    unfolding quiet_def by (simp add: eq)
  with oc show ?thesis by blast
qed

lemma accumulate_other_jid:
  assumes inv: "timers_consistent w" and neq: "j \<noteq> jid"
  shows "pending_messages (bot (accumulate cfg now w j m)) jid = pending_messages (bot w) jid
       \<and> pending_message_tasks (bot (accumulate cfg now w j m)) jid = pending_message_tasks (bot w) jid
       \<and> silenced_users (bot (accumulate cfg now w j m)) = silenced_users (bot w)
       \<and> turns (accumulate cfg now w j m) = turns w
       \<and> (\<forall>n. pending_message_tasks (bot w) jid = Some n \<longrightarrow>
             tasks (accumulate cfg now w j m) ! n = tasks w ! n)"
proof -
  have "\<forall>n. pending_message_tasks (bot w) jid = Some n \<longrightarrow>
             tasks (accumulate cfg now w j m) ! n = tasks w ! n"
  proof (intro allI impI)
    fix n assume r: "pending_message_tasks (bot w) jid = Some n"
    from consistentD(2) [OF inv r] have n: "n < length (tasks w)" "task_jid (tasks w ! n) = jid"
      by simp_all
    show "tasks (accumulate cfg now w j m) ! n = tasks w ! n"
    proof (cases "pending_message_tasks (bot w) j")
      case None
      with n show ?thesis by (simp add: accumulate_tasks nth_append)
    next
      case (Some old)
      from consistentD(2) [OF inv Some] n neq have "old \<noteq> n" by auto
      with Some n show ?thesis by (simp add: accumulate_tasks nth_append)
    qed
  qed
  with neq show ?thesis
    by (simp add: accumulate_def Let_def)
qed

lemma quiet_accumulate_other:
  assumes "quiet w jid lg" and "j \<noteq> jid"
  shows "quiet (accumulate cfg now w j m) jid lg"
proof -
  from assms have inv: "timers_consistent w" by (simp add: quiet_def)
  from accumulate_other_jid [OF inv assms(2), of cfg now m] accumulate_consistent [OF inv, of cfg now j m]
    assms(1)
  show ?thesis by (simp add: quiet_def)
qed

lemma bursting_accumulate_other:
  assumes "bursting w jid n texts wk lg sil" and "j \<noteq> jid"
  shows "bursting (accumulate cfg now w j m) jid n texts wk lg sil"
proof -
  from assms have inv: "timers_consistent w" by (simp add: bursting_def)
  have "length (tasks w) \<le> length (tasks (accumulate cfg now w j m))"
    by (simp add: accumulate_tasks split: option.splits)
  with accumulate_other_jid [OF inv assms(2), of cfg now m] accumulate_consistent [OF inv, of cfg now j m]
    assms(1)
  show ?thesis by (auto simp add: bursting_def)
qed

lemma bursting_accumulate_same:
  assumes "bursting w jid n texts wk lg sil"
  shows "bursting (accumulate cfg now w jid m) jid (length (tasks w)) (texts @ [m])
           (now + MESSAGE_ACCUMULATION_SECONDS cfg) lg sil"
proof -
  from assms have inv: "timers_consistent w" by (simp add: bursting_def)
  have len: "length (tasks (accumulate cfg now w jid m)) = Suc (length (tasks w))"
    by (simp add: accumulate_tasks split: option.splits)
  have last: "tasks (accumulate cfg now w jid m) ! length (tasks w)
      = \<lparr>task_jid = jid, wake_at = now + MESSAGE_ACCUMULATION_SECONDS cfg, status = Sleeping\<rparr>"
    by (simp add: accumulate_tasks nth_append split: option.splits)
  have "pending_messages (bot (accumulate cfg now w jid m)) jid = Some (texts @ [m])"
    "turns (accumulate cfg now w jid m) = turns w"
    "silenced_users (bot (accumulate cfg now w jid m)) = silenced_users (bot w)"
    using assms by (simp_all add: accumulate_def Let_def bursting_def)
  with assms len last accumulate_consistent [OF inv, of cfg now jid m] show ?thesis
    by (simp add: bursting_def accumulate_handles)
qed

lemma quiet_accumulate_same:
  assumes "quiet w jid lg"
  shows "bursting (accumulate cfg now w jid m) jid (length (tasks w)) [m]
           (now + MESSAGE_ACCUMULATION_SECONDS cfg) lg (silenced_users (bot w) jid)"
proof -
  from assms have inv: "timers_consistent w" by (simp add: quiet_def)
  have len: "length (tasks (accumulate cfg now w jid m)) = Suc (length (tasks w))"
    by (simp add: accumulate_tasks split: option.splits)
  have last: "tasks (accumulate cfg now w jid m) ! length (tasks w)
      = \<lparr>task_jid = jid, wake_at = now + MESSAGE_ACCUMULATION_SECONDS cfg, status = Sleeping\<rparr>"
    by (simp add: accumulate_tasks nth_append split: option.splits)
  have "pending_messages (bot (accumulate cfg now w jid m)) jid = Some [m]"
    "turns (accumulate cfg now w jid m) = turns w"
    "silenced_users (bot (accumulate cfg now w jid m)) = silenced_users (bot w)"
    using assms by (simp_all add: accumulate_def Let_def quiet_def)
  with assms len last accumulate_consistent [OF inv, of cfg now jid m] show ?thesis
    by (simp add: bursting_def quiet_def accumulate_handles)
qed

section \<open>A burst makes one turn\<close>

lemma run_until_sched:
  "run_until cfg t w = fold (\<lambda>(now, h) v. resume cfg now h v)
      (map (\<lambda>h. (wake_at (tasks w ! h), h)) (filter (due t (tasks w)) [0..<length (tasks w)])) w"
  by (simp add: run_until_def fold_map comp_def)

lemma quiet_silence_resume:
  assumes "quiet w jid lg"
  shows "silenced_users (bot (resume cfg now h w)) jid = silenced_users (bot w) jid"
proof -
  from assms have "timers_consistent w" and "pending_message_tasks (bot w) jid \<noteq> Some h"
    by (simp_all add: quiet_def)
  from resume_other_jid [OF this, of cfg now] show ?thesis by simp
qed

lemma quiet_silence_fold:
  assumes "quiet w jid lg"
  shows "silenced_users (bot (fold (\<lambda>(now, h) v. resume cfg now h v) sched w)) jid
           = silenced_users (bot w) jid"
  using assms
proof (induction sched arbitrary: w)
  case Nil
  then show ?case by simp
next
  case (Cons x sched)
  obtain now h where x: "x = (now, h)" by (cases x)
  from Cons.IH [OF quiet_resume [OF Cons.prems, of cfg now h]]
    quiet_silence_resume [OF Cons.prems, of cfg now h] x
  show ?case by simp
qed

lemma run_until_quiet:
  assumes "quiet w jid lg"
  shows "quiet (run_until cfg t w) jid lg
       \<and> silenced_users (bot (run_until cfg t w)) jid = silenced_users (bot w) jid"
  unfolding run_until_sched
  using quiet_fold [OF assms] quiet_silence_fold [OF assms] by blast

lemma run_until_bursting_early:
  assumes "bursting w jid n texts wk lg sil" and "t < wk"
  shows "bursting (run_until cfg t w) jid n texts wk lg sil"
  unfolding run_until_sched
proof (rule bursting_fold [OF assms(1)])
  from assms have "\<not> due t (tasks w) n"
    by (simp add: bursting_def due_def)
  then show "\<forall>x\<in>set (map (\<lambda>h. (wake_at (tasks w ! h), h))
        (filter (due t (tasks w)) [0..<length (tasks w)])). snd x \<noteq> n"
    by auto
qed

lemma upt_split: "n < k \<Longrightarrow> [0..<k] = [0..<n] @ n # [Suc n..<k]"
  by (metis less_imp_add_positive upt_add_eq_append upt_conv_Cons zero_le add.commute
      less_add_same_cancel2 add_0)

lemma run_until_bursting_fire:
  assumes "bursting w jid n texts wk lg sil" and "wk \<le> t"
  shows "\<exists>oc. quiet (run_until cfg t w) jid (lg @ [(jid, join '' | '' texts, oc)])
           \<and> (sil = None \<and> lower (join '' | '' texts) \<noteq> ''/silencio''
                \<and> lower (join '' | '' texts) \<noteq> ''/activar'' \<longrightarrow> oc = Pipeline)"
proof -
  let ?f = "\<lambda>h. (wake_at (tasks w ! h), h)"
  let ?d = "due t (tasks w)"
  let ?r = "\<lambda>(now, h) v. resume cfg now h v"
  from assms have inv: "timers_consistent w" and lt: "n < length (tasks w)"
    and reg: "pending_message_tasks (bot w) jid = Some n" and wk: "wake_at (tasks w ! n) = wk"
    by (simp_all add: bursting_def)
  from consistentD(2) [OF inv reg] have "status (tasks w ! n) = Sleeping" by simp
  with lt wk assms(2) have d: "?d n" by (simp add: due_def)
  let ?pre = "map ?f (filter ?d [0..<n])"
  let ?post = "map ?f (filter ?d [Suc n..<length (tasks w)])"
  from d have sched: "map ?f (filter ?d [0..<length (tasks w)]) = ?pre @ ?f n # ?post"
    by (simp add: upt_split [OF lt])
  have "bursting (fold ?r ?pre w) jid n texts wk lg sil"
    by (rule bursting_fold [OF assms(1)]) auto
  from bursting_fire [OF this, of cfg "wake_at (tasks w ! n)"]
  obtain oc where q: "quiet (resume cfg (wake_at (tasks w ! n)) n (fold ?r ?pre w)) jid
        (lg @ [(jid, join '' | '' texts, oc)])"
    and oc: "sil = None \<and> lower (join '' | '' texts) \<noteq> ''/silencio''
                \<and> lower (join '' | '' texts) \<noteq> ''/activar'' \<longrightarrow> oc = Pipeline"
    by blast
  from quiet_fold [OF q, of cfg ?post]
  have "quiet (run_until cfg t w) jid (lg @ [(jid, join '' | '' texts, oc)])"
    unfolding run_until_sched sched by simp
  with oc show ?thesis by blast
qed

lemma fired_rest:
  assumes "quiet w jid lg" and "\<forall>e \<in> set evs. fst (snd e) \<noteq> jid"
  shows "quiet (run_until cfg T (deliver cfg w evs)) jid lg"
  using assms
proof (induction evs arbitrary: w)
  case Nil
  then show ?case by (simp add: run_until_quiet)
next
  case (Cons e evs)
  obtain t j m where e: "e = (t, j, m)" by (cases e)
  with Cons.prems have neq: "j \<noteq> jid" by simp
  from run_until_quiet [OF Cons.prems(1), of cfg t] have "quiet (run_until cfg t w) jid lg" by simp
  from quiet_accumulate_other [OF this neq, of cfg t m]
  have "quiet (accumulate cfg t (run_until cfg t w) j m) jid lg" .
  from Cons.IH [OF this] Cons.prems(2) e show ?case by simp
qed

lemma from_jid_Cons:
  "from_jid jid ((t, j, m) # evs) = (if j = jid then (t, j, m) # from_jid jid evs else from_jid jid evs)"
  by (simp add: from_jid_def)

lemma no_later_message:
  assumes "sorted (t # map fst evs)" and "tp + d \<le> t"
    and "within_window d (tp # map fst (from_jid jid evs))"
  shows "\<forall>e \<in> set evs. fst (snd e) \<noteq> jid"
proof (cases "from_jid jid evs")
  case Nil
  then show ?thesis by (simp add: from_jid_def filter_empty_conv)
next
  case (Cons e rest)
  then have "e \<in> set (from_jid jid evs)" by simp
  then have "e \<in> set evs" by (simp add: from_jid_def)
  with assms(1) have "t \<le> fst e" by auto
  moreover from assms(3) Cons have "fst e - tp < d" by simp
  ultimately show ?thesis using assms(2) by simp
qed

lemma burst_rest:
  assumes "bursting w jid n texts (tp + MESSAGE_ACCUMULATION_SECONDS cfg) lg sil"
    and "sorted (tp # map fst evs)"
    and "within_window (MESSAGE_ACCUMULATION_SECONDS cfg) (tp # map fst (from_jid jid evs))"
    and "last (tp # map fst (from_jid jid evs)) + MESSAGE_ACCUMULATION_SECONDS cfg \<le> T"
  shows "\<exists>oc. quiet (run_until cfg T (deliver cfg w evs)) jid
                 (lg @ [(jid, join '' | '' (texts @ map (\<lambda>e. snd (snd e)) (from_jid jid evs)), oc)])
           \<and> (sil = None
                \<and> lower (join '' | '' (texts @ map (\<lambda>e. snd (snd e)) (from_jid jid evs))) \<noteq> ''/silencio''
                \<and> lower (join '' | '' (texts @ map (\<lambda>e. snd (snd e)) (from_jid jid evs))) \<noteq> ''/activar''
                \<longrightarrow> oc = Pipeline)"
  using assms
proof (induction evs arbitrary: w n texts tp)
  case Nil
  from Nil.prems(4) have "tp + MESSAGE_ACCUMULATION_SECONDS cfg \<le> T"
    by (simp add: from_jid_def)
  from run_until_bursting_fire [OF Nil.prems(1) this, of cfg] show ?case
    by (simp add: from_jid_def)
next
  case (Cons e evs)
  let ?d = "MESSAGE_ACCUMULATION_SECONDS cfg"
  obtain t j m where e: "e = (t, j, m)" by (cases e)
  from Cons.prems(2) e have le: "tp \<le> t" and sorted_t: "sorted (t # map fst evs)"
    and sorted_tp: "sorted (tp # map fst evs)"
    by auto
  show ?case
  proof (cases "j = jid")
    case True
    with Cons.prems(3) e have early: "t < tp + ?d"
      and win: "within_window ?d (t # map fst (from_jid jid evs))"
      by (simp_all add: from_jid_Cons)
    from Cons.prems(4) e True have fin: "last (t # map fst (from_jid jid evs)) + ?d \<le> T"
      by (simp add: from_jid_Cons)
    from run_until_bursting_early [OF Cons.prems(1) early, of cfg]
    have "bursting (run_until cfg t w) jid n texts (tp + ?d) lg sil" .
    from bursting_accumulate_same [OF this, of cfg t m]
    have "bursting (accumulate cfg t (run_until cfg t w) jid m) jid (length (tasks (run_until cfg t w)))
            (texts @ [m]) (t + ?d) lg sil" .
    from Cons.IH [OF this sorted_t win fin] e True show ?thesis
      by (simp add: from_jid_Cons)
  next
    case False
    with e have same: "from_jid jid (e # evs) = from_jid jid evs"
      by (simp add: from_jid_Cons)
    show ?thesis
    proof (cases "t < tp + ?d")
      case True
      from run_until_bursting_early [OF Cons.prems(1) True, of cfg]
      have "bursting (run_until cfg t w) jid n texts (tp + ?d) lg sil" .
      from bursting_accumulate_other [OF this False, of cfg t m]
      have "bursting (accumulate cfg t (run_until cfg t w) j m) jid n texts (tp + ?d) lg sil" .
      from Cons.IH [OF this sorted_tp] Cons.prems(3,4) e show ?thesis
        unfolding same by simp
    next
      case late: False
      then have "tp + ?d \<le> t" by simp
      from no_later_message [OF sorted_t this] Cons.prems(3)
      have none: "\<forall>e \<in> set evs. fst (snd e) \<noteq> jid"
        unfolding same by blast
      then have empty: "from_jid jid evs = []"
        by (simp add: from_jid_def filter_empty_conv)
      from run_until_bursting_fire [OF Cons.prems(1) \<open>tp + ?d \<le> t\<close>, of cfg]
      obtain oc where q: "quiet (run_until cfg t w) jid (lg @ [(jid, join '' | '' texts, oc)])"
        and oc: "sil = None \<and> lower (join '' | '' texts) \<noteq> ''/silencio''
                \<and> lower (join '' | '' texts) \<noteq> ''/activar'' \<longrightarrow> oc = Pipeline"
        by blast
      from quiet_accumulate_other [OF q False, of cfg t m]
      have "quiet (accumulate cfg t (run_until cfg t w) j m) jid (lg @ [(jid, join '' | '' texts, oc)])" .
      from fired_rest [OF this none, of cfg T] oc e show ?thesis
        unfolding same empty by (intro exI [of _ oc]) simp
    qed
  qed
qed

lemma whole_trace:
  assumes "quiet w jid lg"
    and "sorted (map fst evs)"
    and "from_jid jid evs \<noteq> []"
    and "within_window (MESSAGE_ACCUMULATION_SECONDS cfg) (map fst (from_jid jid evs))"
    and "last (map fst (from_jid jid evs)) + MESSAGE_ACCUMULATION_SECONDS cfg \<le> T"
  shows "\<exists>oc. quiet (run_until cfg T (deliver cfg w evs)) jid
                 (lg @ [(jid, join '' | '' (map (\<lambda>e. snd (snd e)) (from_jid jid evs)), oc)])
           \<and> (silenced_users (bot w) jid = None
                \<and> lower (join '' | '' (map (\<lambda>e. snd (snd e)) (from_jid jid evs))) \<noteq> ''/silencio''
                \<and> lower (join '' | '' (map (\<lambda>e. snd (snd e)) (from_jid jid evs))) \<noteq> ''/activar''
                \<longrightarrow> oc = Pipeline)"
  using assms
proof (induction evs arbitrary: w)
  case Nil
  then show ?case by (simp add: from_jid_def)
next
  case (Cons e evs)
  let ?d = "MESSAGE_ACCUMULATION_SECONDS cfg"
  obtain t j m where e: "e = (t, j, m)" by (cases e)
  from Cons.prems(2) e have sorted_t: "sorted (t # map fst evs)" and sorted_rest: "sorted (map fst evs)"
    by simp_all
  from run_until_quiet [OF Cons.prems(1), of cfg t]
  have q: "quiet (run_until cfg t w) jid lg"
    and s: "silenced_users (bot (run_until cfg t w)) jid = silenced_users (bot w) jid"
    by simp_all
  show ?case
  proof (cases "j = jid")
    case True
    from quiet_accumulate_same [OF q, of cfg t m] s
    have b: "bursting (accumulate cfg t (run_until cfg t w) jid m) jid (length (tasks (run_until cfg t w)))
            [m] (t + ?d) lg (silenced_users (bot w) jid)"
      by simp
    from Cons.prems(4,5) e True
    have win: "within_window ?d (t # map fst (from_jid jid evs))"
      and fin: "last (t # map fst (from_jid jid evs)) + ?d \<le> T"
      by (simp_all add: from_jid_Cons)
    from burst_rest [OF b sorted_t win fin] e True show ?thesis
      by (simp add: from_jid_Cons)
  next
    case False
    with e have same: "from_jid jid (e # evs) = from_jid jid evs"
      by (simp add: from_jid_Cons)
    from quiet_accumulate_other [OF q False, of cfg t m]
    have q': "quiet (accumulate cfg t (run_until cfg t w) j m) jid lg" .
    have s': "silenced_users (bot (accumulate cfg t (run_until cfg t w) j m)) jid
                = silenced_users (bot w) jid"
      using s by (simp add: accumulate_def Let_def)
    from Cons.IH [OF q' sorted_rest] Cons.prems(3,4,5) e show ?thesis
      unfolding same s' by simp
  qed
qed

text \<open>
  C1. Take a conversation with nothing pending and no timer, in a world whose timers are
  consistent, and a time-ordered sequence of arrivals, of this and of other conversations,
  in which each text of this conversation arrives less than the debounce window after its
  previous one. Once the clock has reached the last of them plus the window, exactly one
  turn of this conversation has been added to the log: its texts in arrival order, joined
  with \<^verbatim>\<open>" | "\<close>. The turn goes to the reply pipeline unless the conversation is silenced
  or the turn is a command.
\<close>

theorem burst_makes_one_turn:
  assumes "timers_consistent w"
    and "pending_messages (bot w) jid = None" and "pending_message_tasks (bot w) jid = None"
    and "sorted (map fst events)"
    and "from_jid jid events \<noteq> []"
    and "within_window (MESSAGE_ACCUMULATION_SECONDS cfg) (map fst (from_jid jid events))"
    and "last (map fst (from_jid jid events)) + MESSAGE_ACCUMULATION_SECONDS cfg \<le> T"
  shows "\<exists>outcome. of_jid jid (turns (run_until cfg T (deliver cfg w events)))
             = of_jid jid (turns w)
                 @ [(jid, join '' | '' (map (\<lambda>e. snd (snd e)) (from_jid jid events)), outcome)]
           \<and> (silenced_users (bot w) jid = None
                \<and> lower (join '' | '' (map (\<lambda>e. snd (snd e)) (from_jid jid events))) \<noteq> ''/silencio''
                \<and> lower (join '' | '' (map (\<lambda>e. snd (snd e)) (from_jid jid events))) \<noteq> ''/activar''
                \<longrightarrow> outcome = Pipeline)"
proof -
  from assms(1,2,3) have "quiet w jid (of_jid jid (turns w))"
    by (simp add: quiet_def)
  from whole_trace [OF this assms(4,5,6,7)] show ?thesis
    by (auto simp add: quiet_def)
qed

theorem burst_makes_one_turn_witness:
  "of_jid ''A'' (turns (run_until default_settings 1005
      (deliver default_settings (started_world [])
         [(1000, ''A'', ''hola''), (1001, ''A'', ''cuanto cuesta'')])))
     = [(''A'', ''hola | cuanto cuesta'', Pipeline)]
   \<and> turns (run_until default_settings 1005
      (deliver default_settings (started_world [])
         [(1000, ''A'', ''hola''), (1001, ''A'', ''cuanto cuesta'')]))
     = [(''A'', ''hola | cuanto cuesta'', Pipeline)]"
proof -
  let ?w = "started_world []"
  let ?events = "[(1000::real, ''A'', ''hola''), (1001, ''A'', ''cuanto cuesta'')]"
  have f: "from_jid ''A'' ?events = ?events"
    by (simp add: from_jid_def)
  have h: "timers_consistent ?w"
    "pending_messages (bot ?w) ''A'' = None" "pending_message_tasks (bot ?w) ''A'' = None"
    "sorted (map fst ?events)" "from_jid ''A'' ?events \<noteq> []"
    "within_window (MESSAGE_ACCUMULATION_SECONDS default_settings) (map fst (from_jid ''A'' ?events))"
    "last (map fst (from_jid ''A'' ?events)) + MESSAGE_ACCUMULATION_SECONDS default_settings \<le> 1005"
    unfolding f
    by (simp_all add: timers_consistent_def started_world_def started_bot_def new_GlobalState_def
        default_settings_def)
  have j: "join '' | '' (map (\<lambda>e. snd (snd e)) ?events) = ''hola | cuanto cuesta''"
    by simp
  have l: "lower ''hola | cuanto cuesta'' = ''hola | cuanto cuesta''"
    by (simp add: lower_def lower_char_def)
  have s: "silenced_users (bot ?w) ''A'' = None" and t: "of_jid ''A'' (turns ?w) = []"
    by (simp_all add: started_world_def started_bot_def new_GlobalState_def of_jid_def)
  from burst_makes_one_turn [OF h]
  have one: "of_jid ''A'' (turns (run_until default_settings 1005 (deliver default_settings ?w ?events)))
     = [(''A'', ''hola | cuanto cuesta'', Pipeline)]"
    unfolding f j l t using s by auto
  have all: "turns (run_until default_settings 1005 (deliver default_settings ?w ?events))
     = [(''A'', ''hola | cuanto cuesta'', Pipeline)]"
    by (simp add: run_until_def due_def accumulate_def resume_def Let_def task_done_def cancel_def
      process_accumulated_messages_def check_silence_def l
      started_world_def started_bot_def new_GlobalState_def default_settings_def)
  from one all show ?thesis by simp
qed

section \<open>A cancelled timer never fires\<close>

lemma fresh_consistent:
  assumes "tasks w = []" and "pending_message_tasks (bot w) = Map.empty"
  shows "timers_consistent w"
  using assms by (simp add: timers_consistent_def)

lemma bursting_cancels:
  assumes b: "bursting v jid n texts wk lg sil" and len: "length (tasks v) = Suc n"
    and cr: "\<forall>h. n0 \<le> h \<and> h < n \<longrightarrow> status (tasks v ! h) = Cancel_requested"
  shows "length (tasks (accumulate cfg now v jid m)) = Suc (Suc n)
       \<and> (\<forall>h. n0 \<le> h \<and> h < Suc n \<longrightarrow>
             status (tasks (accumulate cfg now v jid m) ! h) = Cancel_requested)"
proof -
  from b have inv: "timers_consistent v" and reg: "pending_message_tasks (bot v) jid = Some n"
    by (simp_all add: bursting_def)
  from consistentD(2) [OF inv reg] have sl: "status (tasks v ! n) = Sleeping" by simp
  from len sl reg have t: "tasks (accumulate cfg now v jid m) =
      (tasks v)[n := (tasks v ! n)\<lparr>status := Cancel_requested\<rparr>]
        @ [\<lparr>task_jid = jid, wake_at = now + MESSAGE_ACCUMULATION_SECONDS cfg, status = Sleeping\<rparr>]"
    by (simp add: accumulate_tasks task_done_def cancel_def)
  show ?thesis
    unfolding t using cr len
    by (auto simp add: nth_append nth_list_update less_Suc_eq)
qed

lemma bursting_accumulate_fold:
  assumes "bursting v jid n texts wk lg sil" and "length (tasks v) = Suc n"
    and "\<forall>h. n0 \<le> h \<and> h < n \<longrightarrow> status (tasks v ! h) = Cancel_requested"
  shows "\<exists>wk'. bursting (fold (\<lambda>(now, m) u. accumulate cfg now u jid m) rest v) jid
            (n + length rest) (texts @ map snd rest) wk' lg sil
         \<and> (\<forall>h. n0 \<le> h \<and> h < n + length rest \<longrightarrow>
               status (tasks (fold (\<lambda>(now, m) u. accumulate cfg now u jid m) rest v) ! h)
                 = Cancel_requested)"
  using assms
proof (induction rest arbitrary: v n texts wk)
  case Nil
  then show ?case by auto
next
  case (Cons x rest)
  obtain now m where x: "x = (now, m)" by (cases x)
  from bursting_accumulate_same [OF Cons.prems(1), of cfg now m] Cons.prems(2)
  have b: "bursting (accumulate cfg now v jid m) jid (Suc n) (texts @ [m])
             (now + MESSAGE_ACCUMULATION_SECONDS cfg) lg sil"
    by simp
  from bursting_cancels [OF Cons.prems, of cfg now m]
  have l: "length (tasks (accumulate cfg now v jid m)) = Suc (Suc n)"
    and c: "\<forall>h. n0 \<le> h \<and> h < Suc n \<longrightarrow>
             status (tasks (accumulate cfg now v jid m) ! h) = Cancel_requested"
    by simp_all
  from Cons.IH [OF b l c] x show ?case by simp
qed

lemma bursting_schedule:
  assumes b: "bursting v jid n texts wk lg sil"
  shows "\<exists>oc. of_jid jid (turns (fold (\<lambda>(now, h) u. resume cfg now h u) sched v))
           = lg @ (if n \<in> snd ` set sched then [(jid, join '' | '' texts, oc)] else [])"
proof (cases "n \<in> snd ` set sched")
  case False
  then have "\<forall>x \<in> set sched. snd x \<noteq> n"
    by force
  from bursting_fold [OF b this, of cfg] False show ?thesis
    by (simp add: bursting_def)
next
  case True
  then have "\<exists>x \<in> set sched. snd x = n" by auto
  from split_list_first_prop [OF this]
  obtain pre x post where sched: "sched = pre @ x # post" and x: "snd x = n"
    and pre: "\<forall>y \<in> set pre. snd y \<noteq> n"
    by blast
  obtain now where xn: "x = (now, n)" using x by (cases x) simp
  let ?r = "\<lambda>(now, h) u. resume cfg now h u"
  from bursting_fold [OF b pre, of cfg]
  have "bursting (fold ?r pre v) jid n texts wk lg sil" .
  from bursting_fire [OF this, of cfg now]
  obtain oc where s: "quiet (resume cfg now n (fold ?r pre v)) jid (lg @ [(jid, join '' | '' texts, oc)])"
    by blast
  from quiet_fold [OF s, of cfg post]
  have "of_jid jid (turns (fold ?r post (resume cfg now n (fold ?r pre v))))
          = lg @ [(jid, join '' | '' texts, oc)]"
    by (simp add: quiet_def)
  with True sched xn show ?thesis
    by (intro exI [of _ oc]) simp
qed

text \<open>
  C2. In every world reached from a fresh one by any sequence of steps:
  no task was cancelled inside a turn; every registered handle is the sleeping timer of
  its conversation and every sleeping timer is the registered one; resuming a cancelled
  timer changes neither the state of the bot nor the log of turns. And when \<open>N\<close> texts
  of a conversation with nothing pending arrive, the first \<open>N - 1\<close> timers are cancelled
  and the last one sleeps; then resuming tasks in any order, any number of times, adds
  exactly one turn of the conversation, with all the texts, if the last timer is among
  them, and none otherwise.
\<close>

theorem cancelled_timer_never_fires:
  assumes "tasks w0 = []" and "pending_message_tasks (bot w0) = Map.empty"
    and "w = fold (exec cfg) steps w0"
  shows "(\<forall>h < length (tasks w). status (tasks w ! h) \<noteq> Interrupted)
       \<and> (\<forall>j h. pending_message_tasks (bot w) j = Some h \<longrightarrow>
             h < length (tasks w) \<and> status (tasks w ! h) = Sleeping \<and> task_jid (tasks w ! h) = j)
       \<and> (\<forall>h < length (tasks w). status (tasks w ! h) = Sleeping \<longrightarrow>
             pending_message_tasks (bot w) (task_jid (tasks w ! h)) = Some h)
       \<and> (\<forall>h now. h < length (tasks w) \<and> status (tasks w ! h) = Cancel_requested \<longrightarrow>
             bot (resume cfg now h w) = bot w \<and> turns (resume cfg now h w) = turns w)
       \<and> (\<forall>jid msgs sched.
             msgs \<noteq> [] \<and> pending_messages (bot w) jid = None
             \<and> pending_message_tasks (bot w) jid = None \<longrightarrow>
             (\<forall>h. length (tasks w) \<le> h \<and> h < length (tasks w) + length msgs - 1 \<longrightarrow>
                status (tasks (fold (\<lambda>(now, m) u. accumulate cfg now u jid m) msgs w) ! h)
                  = Cancel_requested)
             \<and> status (tasks (fold (\<lambda>(now, m) u. accumulate cfg now u jid m) msgs w)
                        ! (length (tasks w) + length msgs - 1)) = Sleeping
             \<and> (\<exists>outcome.
                  of_jid jid (turns (fold (\<lambda>(now, h) u. resume cfg now h u) sched
                           (fold (\<lambda>(now, m) u. accumulate cfg now u jid m) msgs w)))
                    = of_jid jid (turns w)
                        @ (if length (tasks w) + length msgs - 1 \<in> snd ` set sched
                           then [(jid, join '' | '' (map snd msgs), outcome)] else [])))"
proof -
  have inv: "timers_consistent w"
    unfolding assms(3) by (rule run_consistent [OF fresh_consistent [OF assms(1,2)]])
  have a: "\<forall>h < length (tasks w). status (tasks w ! h) \<noteq> Interrupted"
    using consistentD(1) [OF inv] by blast
  have b: "\<forall>j h. pending_message_tasks (bot w) j = Some h \<longrightarrow>
             h < length (tasks w) \<and> status (tasks w ! h) = Sleeping \<and> task_jid (tasks w ! h) = j"
    using consistentD(2) [OF inv] by blast
  have c: "\<forall>h < length (tasks w). status (tasks w ! h) = Sleeping \<longrightarrow>
             pending_message_tasks (bot w) (task_jid (tasks w ! h)) = Some h"
    using consistentD(3) [OF inv] by blast
  have d: "\<forall>h now. h < length (tasks w) \<and> status (tasks w ! h) = Cancel_requested \<longrightarrow>
             bot (resume cfg now h w) = bot w \<and> turns (resume cfg now h w) = turns w"
  proof (intro allI impI)
    fix h now assume h: "h < length (tasks w) \<and> status (tasks w ! h) = Cancel_requested"
    then have "status (tasks w ! h) \<noteq> Sleeping" by simp
    from resume_not_sleeping [OF conjunct1 [OF h] this, of cfg now]
    show "bot (resume cfg now h w) = bot w \<and> turns (resume cfg now h w) = turns w"
      by simp
  qed
  have e: "\<forall>jid msgs sched.
             msgs \<noteq> [] \<and> pending_messages (bot w) jid = None
             \<and> pending_message_tasks (bot w) jid = None \<longrightarrow>
             (\<forall>h. length (tasks w) \<le> h \<and> h < length (tasks w) + length msgs - 1 \<longrightarrow>
                status (tasks (fold (\<lambda>(now, m) u. accumulate cfg now u jid m) msgs w) ! h)
                  = Cancel_requested)
             \<and> status (tasks (fold (\<lambda>(now, m) u. accumulate cfg now u jid m) msgs w)
                        ! (length (tasks w) + length msgs - 1)) = Sleeping
             \<and> (\<exists>outcome.
                  of_jid jid (turns (fold (\<lambda>(now, h) u. resume cfg now h u) sched
                           (fold (\<lambda>(now, m) u. accumulate cfg now u jid m) msgs w)))
                    = of_jid jid (turns w)
                        @ (if length (tasks w) + length msgs - 1 \<in> snd ` set sched
                           then [(jid, join '' | '' (map snd msgs), outcome)] else []))"
  proof (intro allI impI)
    fix jid :: string and msgs :: "(real \<times> string) list" and sched :: "(real \<times> nat) list"
    assume h: "msgs \<noteq> [] \<and> pending_messages (bot w) jid = None
             \<and> pending_message_tasks (bot w) jid = None"
    let ?n0 = "length (tasks w)"
    let ?acc = "\<lambda>(now, m) u. accumulate cfg now u jid m"
    from h obtain x rest where msgs: "msgs = x # rest" by (cases msgs) auto
    obtain t1 m1 where x: "x = (t1, m1)" by (cases x)
    from h inv have "quiet w jid (of_jid jid (turns w))"
      by (simp add: quiet_def)
    from quiet_accumulate_same [OF this, of cfg t1 m1]
    have st: "bursting (accumulate cfg t1 w jid m1) jid ?n0 [m1]
                (t1 + MESSAGE_ACCUMULATION_SECONDS cfg) (of_jid jid (turns w)) (silenced_users (bot w) jid)" .
    have len: "length (tasks (accumulate cfg t1 w jid m1)) = Suc ?n0"
      using h by (simp add: accumulate_tasks)
    have "\<forall>h. ?n0 \<le> h \<and> h < ?n0 \<longrightarrow> status (tasks (accumulate cfg t1 w jid m1) ! h) = Cancel_requested"
      by auto
    from bursting_accumulate_fold [where rest = rest and cfg = cfg, OF st len this]
    obtain wk where bs: "bursting (fold ?acc rest (accumulate cfg t1 w jid m1)) jid (?n0 + length rest)
                ([m1] @ map snd rest) wk (of_jid jid (turns w)) (silenced_users (bot w) jid)"
      and cr: "\<forall>h. ?n0 \<le> h \<and> h < ?n0 + length rest \<longrightarrow>
               status (tasks (fold ?acc rest (accumulate cfg t1 w jid m1)) ! h) = Cancel_requested"
      by blast
    have w1: "fold ?acc msgs w = fold ?acc rest (accumulate cfg t1 w jid m1)"
      using msgs x by simp
    have n: "?n0 + length msgs - 1 = ?n0 + length rest"
      using msgs by simp
    have tx: "[m1] @ map snd rest = map snd msgs"
      using msgs x by simp
    from bursting_schedule [OF bs, of cfg sched]
    obtain oc where "of_jid jid (turns (fold (\<lambda>(now, h) u. resume cfg now h u) sched
                           (fold ?acc rest (accumulate cfg t1 w jid m1))))
           = of_jid jid (turns w) @ (if ?n0 + length rest \<in> snd ` set sched
                        then [(jid, join '' | '' ([m1] @ map snd rest), oc)] else [])"
      by blast
    moreover from bs have r: "pending_message_tasks (bot (fold ?acc rest (accumulate cfg t1 w jid m1))) jid
        = Some (?n0 + length rest)" and i: "timers_consistent (fold ?acc rest (accumulate cfg t1 w jid m1))"
      by (simp_all add: bursting_def)
    from consistentD(2) [OF i r]
    have "status (tasks (fold ?acc rest (accumulate cfg t1 w jid m1)) ! (?n0 + length rest)) = Sleeping"
      by simp
    ultimately show "(\<forall>h. ?n0 \<le> h \<and> h < ?n0 + length msgs - 1 \<longrightarrow>
                status (tasks (fold ?acc msgs w) ! h) = Cancel_requested)
             \<and> status (tasks (fold ?acc msgs w) ! (?n0 + length msgs - 1)) = Sleeping
             \<and> (\<exists>outcome.
                  of_jid jid (turns (fold (\<lambda>(now, h) u. resume cfg now h u) sched (fold ?acc msgs w)))
                    = of_jid jid (turns w) @ (if ?n0 + length msgs - 1 \<in> snd ` set sched
                                 then [(jid, join '' | '' (map snd msgs), outcome)] else []))"
      unfolding w1 n tx [symmetric] using cr by blast
  qed
  from a b c d e show ?thesis by blast
qed

theorem cancelled_timer_never_fires_witness:
  "status (tasks two_messages_world ! 0) = Cancel_requested
   \<and> status (tasks two_messages_world ! 1) = Sleeping
   \<and> turns (resume default_settings 1004 0 two_messages_world) = turns two_messages_world
   \<and> bot (resume default_settings 1004 0 two_messages_world) = bot two_messages_world
   \<and> length (of_jid ''B'' (turns (fold (\<lambda>(now, h) u. resume default_settings now h u)
        [(1010, 0), (1010, 2), (1011, 3), (1012, 4), (1013, 4), (1014, 1)]
        (fold (\<lambda>(now, m) u. accumulate default_settings now u ''B'' m)
           [(1005, ''buenas''), (1006, ''precio''), (1007, ''gracias'')] two_messages_world)))) = 1"
proof -
  let ?init = "started_world []"
  let ?w = two_messages_world
  let ?steps = "[Message 1000 ''A'' ''hola'', Message 1001 ''A'' ''cuanto cuesta'']"
  let ?msgs = "[(1005::real, ''buenas''), (1006, ''precio''), (1007, ''gracias'')]"
  let ?sched = "[(1010::real, 0::nat), (1010, 2), (1011, 3), (1012, 4), (1013, 4), (1014, 1)]"
  have t: "tasks ?w = [\<lparr>task_jid = ''A'', wake_at = 1004, status = Cancel_requested\<rparr>,
                      \<lparr>task_jid = ''A'', wake_at = 1005, status = Sleeping\<rparr>]"
    and l: "turns ?w = []"
    and p: "pending_messages (bot ?w) ''B'' = None"
    and r: "pending_message_tasks (bot ?w) ''B'' = None"
    by (simp_all add: two_messages_world_def accumulate_def Let_def started_world_def started_bot_def
        new_GlobalState_def default_settings_def task_done_def cancel_def)
  have s1: "tasks ?init = []" and s2: "pending_message_tasks (bot ?init) = Map.empty"
    by (simp_all add: started_world_def started_bot_def new_GlobalState_def)
  have s3: "?w = fold (exec default_settings) ?steps ?init"
    by (simp only: two_messages_world_def)
  note main = cancelled_timer_never_fires [OF s1 s2 s3]
  from main have d: "\<forall>h now. h < length (tasks ?w) \<and> status (tasks ?w ! h) = Cancel_requested \<longrightarrow>
             bot (resume default_settings now h ?w) = bot ?w
             \<and> turns (resume default_settings now h ?w) = turns ?w"
    by blast
  have c0: "0 < length (tasks ?w) \<and> status (tasks ?w ! 0) = Cancel_requested"
    by (simp add: t)
  from d [rule_format, OF c0, of 1004]
  have untouched: "bot (resume default_settings 1004 0 ?w) = bot ?w"
    "turns (resume default_settings 1004 0 ?w) = turns ?w"
    by simp_all
  from main have e: "?msgs \<noteq> [] \<and> pending_messages (bot ?w) ''B'' = None
             \<and> pending_message_tasks (bot ?w) ''B'' = None \<longrightarrow>
             (\<exists>outcome.
                  of_jid ''B'' (turns (fold (\<lambda>(now, h) u. resume default_settings now h u) ?sched
                           (fold (\<lambda>(now, m) u. accumulate default_settings now u ''B'' m) ?msgs ?w)))
                    = of_jid ''B'' (turns ?w)
                       @ (if length (tasks ?w) + length ?msgs - 1 \<in> snd ` set ?sched
                                 then [(''B'', join '' | '' (map snd ?msgs), outcome)] else []))"
    by blast
  have pre: "?msgs \<noteq> [] \<and> pending_messages (bot ?w) ''B'' = None
             \<and> pending_message_tasks (bot ?w) ''B'' = None"
    using p r by simp
  from e [rule_format, OF pre] l
  have one: "length (of_jid ''B'' (turns (fold (\<lambda>(now, h) u. resume default_settings now h u) ?sched
                 (fold (\<lambda>(now, m) u. accumulate default_settings now u ''B'' m) ?msgs ?w)))) = 1"
    by (auto simp add: t of_jid_def)
  from c0 untouched one show ?thesis
    by (simp add: t)
qed

end
